(* ===== verification/Go_Prelude.thy ===== *)
theory Go_Prelude
  imports Main "HOL-Library.AList"
begin

text \<open>
  Shared ground of the development: the Go notions every component uses.

  \<^item> Go strings are \<open>string\<close> (lists of bytes); the functions of Go's package
    \<open>strings\<close> the sources call are \<open>HasPrefix\<close> and \<open>TrimPrefix\<close>.
  \<^item> A Go map is an association list with distinct keys (\<open>gomap\<close>). The list order is
    the order in which one \<open>range\<close> loop visits the map; Go leaves that order open, so
    a result that must not depend on it is proved for every order.
  \<^item> A Go error is a value of \<open>goerr\<close>: the sentinels of the sources, plain texts and
    \<open>fmt.Errorf\<close> wrappers (every format of the sources ends with the wrapped error,
    so a wrapper is the text before it and the error).
  \<^item> A Go function with effects is a state transformer with a result of type \<open>res\<close>:
    a value, a returned error, a panic, or no return at all (\<open>Blocked\<close>). As in Go, the
    state changes made before an error or a panic stay.
  \<^item> \<open>keeps R m\<close> says that every run of \<open>m\<close> moves the state along \<open>R\<close>; the locale
    \<open>effect_rel\<close> gives its composition rules once, for every reflexive and transitive
    \<open>R\<close>.
\<close>

named_theorems keeps_rules
named_theorems run_simps


subsection \<open>Strings\<close>

definition HasPrefix :: "string \<Rightarrow> string \<Rightarrow> bool" where
  "HasPrefix s p \<longleftrightarrow> take (length p) s = p"

definition TrimPrefix :: "string \<Rightarrow> string \<Rightarrow> string" where
  "TrimPrefix s p = (if HasPrefix s p then drop (length p) s else s)"

lemma HasPrefix_append [simp]: "HasPrefix (p @ s) p"
  by (simp add: HasPrefix_def)

lemma HasPrefix_Nil [simp]: "HasPrefix s []"
  by (simp add: HasPrefix_def)

lemma HasPrefix_iff: "HasPrefix s p \<longleftrightarrow> (\<exists>t. s = p @ t)"
  by (metis HasPrefix_append HasPrefix_def append_take_drop_id)

lemma TrimPrefix_append [simp]: "TrimPrefix (p @ s) p = s"
  by (simp add: TrimPrefix_def)

lemma HasPrefix_split: "HasPrefix s p \<Longrightarrow> p @ TrimPrefix s p = s"
  by (auto simp: HasPrefix_iff)

lemma TrimPrefix_other: "\<not> HasPrefix s p \<Longrightarrow> TrimPrefix s p = s"
  by (simp add: TrimPrefix_def)

lemma HasPrefix_Cons [simp]:
  "HasPrefix (c # s) (d # p) \<longleftrightarrow> c = d \<and> HasPrefix s p"
  by (auto simp: HasPrefix_iff)

lemma TrimPrefix_Nil [simp]: "TrimPrefix s [] = s"
  by (simp add: TrimPrefix_def)

lemma TrimPrefix_Cons [simp]: "HasPrefix s p \<Longrightarrow> TrimPrefix (c # s) (c # p) = TrimPrefix s p"
  by (simp add: TrimPrefix_def)

lemma HasPrefix_Nil_left [simp]: "HasPrefix [] (d # p) = False"
  by (simp add: HasPrefix_def)


subsection \<open>Maps\<close>

type_synonym ('k, 'v) gomap = "('k \<times> 'v) list"

abbreviation gokeys :: "('k, 'v) gomap \<Rightarrow> 'k list" where
  "gokeys m \<equiv> map fst m"

definition gomap_ok :: "('k, 'v) gomap \<Rightarrow> bool" where
  "gomap_ok m \<longleftrightarrow> distinct (gokeys m)"

text \<open>Two association lists that are the same Go map, visited in two orders.\<close>

definition same_map :: "('k, 'v) gomap \<Rightarrow> ('k, 'v) gomap \<Rightarrow> bool" where
  "same_map m m' \<longleftrightarrow> gomap_ok m \<and> gomap_ok m' \<and> map_of m = map_of m'"

lemma gomap_ok_Nil [simp]: "gomap_ok []"
  by (simp add: gomap_ok_def)

lemma gomap_ok_update [simp]: "gomap_ok m \<Longrightarrow> gomap_ok (AList.update k v m)"
  by (simp add: gomap_ok_def distinct_update)

lemma gomap_ok_delete [simp]: "gomap_ok m \<Longrightarrow> gomap_ok (AList.delete k m)"
  by (simp add: gomap_ok_def distinct_delete)

lemma gomap_mem: "gomap_ok m \<Longrightarrow> x \<in> set m \<longleftrightarrow> map_of m (fst x) = Some (snd x)"
  by (cases x) (simp add: gomap_ok_def)

lemma same_map_set: "same_map m m' \<Longrightarrow> set m = set m'"
  by (intro set_eqI) (simp add: same_map_def gomap_mem)

lemma map_of_update [simp]: "map_of (AList.update k v m) = (map_of m)(k \<mapsto> v)"
  by (rule update_conv')

lemma map_of_delete_fun: "map_of (AList.delete k m) = (map_of m)(k := None)"
  by (rule delete_conv')

lemma update_new: "k \<notin> set (gokeys m) \<Longrightarrow> AList.update k v m = m @ [(k, v)]"
  by (induction m) auto

lemma gokeys_update: "set (gokeys (AList.update k v m)) = insert k (set (gokeys m))"
  by (metis dom_update insert_is_Un list.set_map)


subsection \<open>Errors\<close>

datatype goerr =
    ErrParseJSON
  | ErrNoMessageTypeForRouteKey
  | ErrEmptySuffix
  | ErrAlreadyStarted
  | ErrEmptyHeaderKey
  | ErrText string
  | ErrWrap string goerr
  | ErrJoin "goerr list"

text \<open>\<open>errors.Is\<close>: the error itself or any error below its wrappers.\<close>

primrec errors_Is :: "goerr \<Rightarrow> goerr \<Rightarrow> bool" and
  errors_Is_any :: "goerr list \<Rightarrow> goerr \<Rightarrow> bool" where
  "errors_Is ErrParseJSON t = (t = ErrParseJSON)"
| "errors_Is ErrNoMessageTypeForRouteKey t = (t = ErrNoMessageTypeForRouteKey)"
| "errors_Is ErrEmptySuffix t = (t = ErrEmptySuffix)"
| "errors_Is ErrAlreadyStarted t = (t = ErrAlreadyStarted)"
| "errors_Is ErrEmptyHeaderKey t = (t = ErrEmptyHeaderKey)"
| "errors_Is (ErrText s) t = (t = ErrText s)"
| "errors_Is (ErrWrap s e) t = (t = ErrWrap s e \<or> errors_Is e t)"
| "errors_Is (ErrJoin es) t = (t = ErrJoin es \<or> errors_Is_any es t)"
| "errors_Is_any [] t = False"
| "errors_Is_any (e # es) t = (errors_Is e t \<or> errors_Is_any es t)"

text \<open>
  \<open>err.Error()\<close>. The text of \<open>spec.ErrParseJSON\<close> belongs to the module
  \<open>messaging\<close>, so it is an argument.
\<close>

primrec Error :: "string \<Rightarrow> goerr \<Rightarrow> string" and
  Error_lines :: "string \<Rightarrow> goerr list \<Rightarrow> string" where
  "Error pj ErrParseJSON = pj"
| "Error pj ErrNoMessageTypeForRouteKey = ''no message type for routing key configured''"
| "Error pj ErrEmptySuffix = ''empty queue suffix not allowed''"
| "Error pj ErrAlreadyStarted = ''already started''"
| "Error pj ErrEmptyHeaderKey = ''empty key not allowed''"
| "Error pj (ErrText s) = s"
| "Error pj (ErrWrap s e) = s @ Error pj e"
| "Error pj (ErrJoin es) = Error_lines pj es"
| "Error_lines pj [] = []"
| "Error_lines pj (e # es) =
     (if es = [] then Error pj e else Error pj e @ [CHR 10] @ Error_lines pj es)"

text \<open>\<open>errors.Join\<close> of a list without nil entries: nil for the empty list.\<close>

definition errors_Join :: "goerr list \<Rightarrow> goerr option" where
  "errors_Join es = (if es = [] then None else Some (ErrJoin es))"


subsection \<open>State, errors, panics and blocking\<close>

datatype 'a res = Ok 'a | Err goerr | Panic string | Blocked

type_synonym ('s, 'a) M = "'s \<Rightarrow> 'a res \<times> 's"

definition returnM :: "'a \<Rightarrow> ('s, 'a) M" where
  "returnM a s = (Ok a, s)"

definition failM :: "goerr \<Rightarrow> ('s, 'a) M" where
  "failM e s = (Err e, s)"

definition panicM :: "string \<Rightarrow> ('s, 'a) M" where
  "panicM p s = (Panic p, s)"

definition blockM :: "('s, 'a) M" where
  "blockM s = (Blocked, s)"

definition getM :: "('s \<Rightarrow> 'a) \<Rightarrow> ('s, 'a) M" where
  "getM f s = (Ok (f s), s)"

definition putM :: "('s \<Rightarrow> 's) \<Rightarrow> ('s, unit) M" where
  "putM f s = (Ok (), f s)"

definition bindM :: "('s, 'a) M \<Rightarrow> ('a \<Rightarrow> ('s, 'b) M) \<Rightarrow> ('s, 'b) M" where
  "bindM m f s = (case m s of (r, s') \<Rightarrow>
     (case r of Ok a \<Rightarrow> f a s' | Err e \<Rightarrow> (Err e, s') | Panic p \<Rightarrow> (Panic p, s')
      | Blocked \<Rightarrow> (Blocked, s')))"

abbreviation thenM :: "('s, 'a) M \<Rightarrow> ('s, 'b) M \<Rightarrow> ('s, 'b) M" where
  "thenM m n \<equiv> bindM m (\<lambda>_. n)"

text \<open>\<open>if err := m(); err != nil { return fmt.Errorf("p%w", err) }\<close>\<close>

definition wrapM :: "string \<Rightarrow> ('s, 'a) M \<Rightarrow> ('s, 'a) M" where
  "wrapM p m s = (case m s of (r, s') \<Rightarrow>
     (case r of Err e \<Rightarrow> (Err (ErrWrap p e), s') | _ \<Rightarrow> (r, s')))"

text \<open>\<open>err := m()\<close>: the error, or \<open>None\<close> for nil, as a value to branch on.\<close>

definition tryM :: "('s, 'a) M \<Rightarrow> ('s, goerr option) M" where
  "tryM m s = (case m s of (r, s') \<Rightarrow>
     (case r of Ok _ \<Rightarrow> (Ok None, s') | Err e \<Rightarrow> (Ok (Some e), s')
      | Panic p \<Rightarrow> (Panic p, s') | Blocked \<Rightarrow> (Blocked, s')))"

primrec forM :: "('a \<Rightarrow> ('s, unit) M) \<Rightarrow> 'a list \<Rightarrow> ('s, unit) M" where
  "forM f [] = returnM ()"
| "forM f (x # xs) = thenM (f x) (forM f xs)"

lemma returnM_run [run_simps]: "returnM a s = (Ok a, s)"
  by (simp add: returnM_def)

lemma failM_run [run_simps]: "failM e s = (Err e, s)"
  by (simp add: failM_def)

lemma panicM_run [run_simps]: "panicM p s = (Panic p, s)"
  by (simp add: panicM_def)

lemma blockM_run [run_simps]: "blockM s = (Blocked, s)"
  by (simp add: blockM_def)

lemma getM_run [run_simps]: "getM f s = (Ok (f s), s)"
  by (simp add: getM_def)

lemma putM_run [run_simps]: "putM f s = (Ok (), f s)"
  by (simp add: putM_def)

lemma bindM_run [run_simps]:
  "bindM m f s = (case m s of (Ok a, s') \<Rightarrow> f a s' | (Err e, s') \<Rightarrow> (Err e, s')
     | (Panic p, s') \<Rightarrow> (Panic p, s') | (Blocked, s') \<Rightarrow> (Blocked, s'))"
  by (simp add: bindM_def)

lemma wrapM_run [run_simps]:
  "wrapM p m s = (case m s of (Ok a, s') \<Rightarrow> (Ok a, s') | (Err e, s') \<Rightarrow> (Err (ErrWrap p e), s')
     | (Panic q, s') \<Rightarrow> (Panic q, s') | (Blocked, s') \<Rightarrow> (Blocked, s'))"
  by (simp add: wrapM_def split: prod.split res.split)

lemma tryM_run [run_simps]:
  "tryM m s = (case m s of (Ok a, s') \<Rightarrow> (Ok None, s') | (Err e, s') \<Rightarrow> (Ok (Some e), s')
     | (Panic q, s') \<Rightarrow> (Panic q, s') | (Blocked, s') \<Rightarrow> (Blocked, s'))"
  by (simp add: tryM_def)

lemma bindM_Ok: "m s = (Ok a, s') \<Longrightarrow> bindM m f s = f a s'"
  by (simp add: bindM_def)

lemma bindM_assoc: "bindM (bindM m f) g = bindM m (\<lambda>a. bindM (f a) g)"
  by (rule ext) (simp add: bindM_def split: prod.split res.split)

lemma bindM_Ok_iff:
  "bindM m f s = (Ok b, t) \<longleftrightarrow> (\<exists>a s'. m s = (Ok a, s') \<and> f a s' = (Ok b, t))"
  by (auto simp: bindM_def split: prod.splits res.splits)

lemma wrapM_Ok_iff: "wrapM p m s = (Ok a, t) \<longleftrightarrow> m s = (Ok a, t)"
  by (auto simp: wrapM_def split: prod.splits res.splits)

lemma forM_append_run:
  "forM f (xs @ ys) s = bindM (forM f xs) (\<lambda>_. forM f ys) s"
proof (induction xs arbitrary: s)
  case Nil
  show ?case by (simp add: run_simps)
next
  case (Cons x xs)
  show ?case
    by (cases "f x s") (auto simp: run_simps Cons.IH split: res.split)
qed


subsection \<open>What every run keeps\<close>

definition keeps :: "('s \<Rightarrow> 's \<Rightarrow> bool) \<Rightarrow> ('s, 'a) M \<Rightarrow> bool" where
  "keeps R m \<longleftrightarrow> (\<forall>s. R s (snd (m s)))"

lemma keepsI: "(\<And>s. R s (snd (m s))) \<Longrightarrow> keeps R m"
  by (simp add: keeps_def)

lemma keepsD: "keeps R m \<Longrightarrow> m s = (r, t) \<Longrightarrow> R s t"
  by (metis keeps_def snd_conv)

lemma keeps_snd: "keeps R m \<Longrightarrow> R s (snd (m s))"
  by (simp add: keeps_def)

locale effect_rel =
  fixes R :: "'s \<Rightarrow> 's \<Rightarrow> bool"
  assumes refl: "R s s"
    and trans: "R s t \<Longrightarrow> R t u \<Longrightarrow> R s u"
begin

lemma keeps_return [keeps_rules]: "keeps R (returnM a)"
  by (simp add: keeps_def returnM_def refl)

lemma keeps_fail [keeps_rules]: "keeps R (failM e)"
  by (simp add: keeps_def failM_def refl)

lemma keeps_panic [keeps_rules]: "keeps R (panicM p)"
  by (simp add: keeps_def panicM_def refl)

lemma keeps_block [keeps_rules]: "keeps R blockM"
  by (simp add: keeps_def blockM_def refl)

lemma keeps_get [keeps_rules]: "keeps R (getM f)"
  by (simp add: keeps_def getM_def refl)

lemma keeps_put: "(\<And>s. R s (f s)) \<Longrightarrow> keeps R (putM f)"
  by (simp add: keeps_def putM_def)

lemma keeps_bind [keeps_rules]:
  assumes "keeps R m" and "\<And>a. keeps R (f a)"
  shows "keeps R (bindM m f)"
proof (rule keepsI)
  fix s
  obtain r s' where m: "m s = (r, s')" by fastforce
  with assms(1) have "R s s'" by (rule keepsD)
  moreover have "R s' (snd (f a s'))" for a
    using assms(2) [of a] by (simp add: keeps_def)
  ultimately show "R s (snd (bindM m f s))"
    by (auto simp: bindM_def m split: res.split intro: trans)
qed

lemma keeps_wrap [keeps_rules]: "keeps R m \<Longrightarrow> keeps R (wrapM p m)"
  by (auto simp: keeps_def wrapM_def split: prod.split res.split) (metis snd_conv)+

lemma keeps_try [keeps_rules]: "keeps R m \<Longrightarrow> keeps R (tryM m)"
  by (auto simp: keeps_def tryM_def split: prod.split res.split) (metis snd_conv)+

lemma keeps_forM [keeps_rules]:
  assumes "\<And>x. x \<in> set xs \<Longrightarrow> keeps R (f x)"
  shows "keeps R (forM f xs)"
  using assms by (induction xs) (simp_all add: keeps_return keeps_bind)

lemma keeps_if [keeps_rules]:
  "keeps R m \<Longrightarrow> keeps R n \<Longrightarrow> keeps R (if b then m else n)"
  by simp

lemma keeps_case_option [keeps_rules]:
  "keeps R m \<Longrightarrow> (\<And>x. keeps R (f x)) \<Longrightarrow> keeps R (case_option m f ox)"
  by (cases ox) simp_all

lemma keeps_case_prod [keeps_rules]: "(\<And>a b. keeps R (f a b)) \<Longrightarrow> keeps R (case_prod f x)"
  by (cases x) simp

lemma keeps_case_sum [keeps_rules]:
  "(\<And>x. keeps R (f x)) \<Longrightarrow> (\<And>y. keeps R (g y)) \<Longrightarrow> keeps R (case_sum f g v)"
  by (cases v) simp_all

end

end
