(* ===== verification/Naming.thy ===== *)
theory Naming
  imports Go_Prelude
begin

text \<open>
  The naming conventions of \<open>naming.go\<close>: every exchange and queue name is built from a
  service or stream name. \<open>randomString\<close> draws a UUID from the environment, so
  \<open>serviceEventRandomQueueName\<close> takes the string that was drawn. The lemmas show that
  names of different services, streams and patterns never collide, and that
  \<open>trimExchangeFromQueue\<close> undoes the prefix the queue names carry.
\<close>

definition ExchangeTopic :: string where
  "ExchangeTopic = ''topic''"

definition ExchangeDirect :: string where
  "ExchangeDirect = ''direct''"

definition ExchangeHeaders :: string where
  "ExchangeHeaders = ''headers''"

definition defaultEventExchangeName :: string where
  "defaultEventExchangeName = ''events''"

definition topicExchangeName :: "string \<Rightarrow> string" where
  "topicExchangeName svcName = svcName @ ''.'' @ ExchangeTopic @ ''.exchange''"

definition serviceEventQueueName :: "string \<Rightarrow> string \<Rightarrow> string" where
  "serviceEventQueueName exchangeName service = exchangeName @ ''.queue.'' @ service"

definition serviceEventRandomQueueName :: "string \<Rightarrow> string \<Rightarrow> string \<Rightarrow> string" where
  "serviceEventRandomQueueName exchangeName service randomString =
     exchangeName @ ''.queue.'' @ service @ ''-'' @ randomString"

definition serviceRequestExchangeName :: "string \<Rightarrow> string" where
  "serviceRequestExchangeName svcName = svcName @ ''.direct.exchange.request''"

definition serviceResponseExchangeName :: "string \<Rightarrow> string" where
  "serviceResponseExchangeName svcName = svcName @ ''.headers.exchange.response''"

definition serviceRequestQueueName :: "string \<Rightarrow> string" where
  "serviceRequestQueueName service = serviceRequestExchangeName service @ ''.queue''"

definition serviceResponseQueueName :: "string \<Rightarrow> string \<Rightarrow> string" where
  "serviceResponseQueueName targetService serviceName =
     serviceResponseExchangeName targetService @ ''.queue.'' @ serviceName"

definition trimExchangeFromQueue :: "string \<Rightarrow> string \<Rightarrow> string" where
  "trimExchangeFromQueue queueName exchangeName =
     TrimPrefix (TrimPrefix queueName exchangeName) ''.''"

lemmas exchange_kind_defs = ExchangeTopic_def ExchangeDirect_def ExchangeHeaders_def

lemmas exchange_name_defs =
  topicExchangeName_def serviceRequestExchangeName_def serviceResponseExchangeName_def
  exchange_kind_defs

lemmas queue_name_defs =
  serviceEventQueueName_def serviceEventRandomQueueName_def serviceRequestQueueName_def
  serviceResponseQueueName_def

text \<open>A name without a dot: the last segment of a dotted name determines it.\<close>

definition dotfree :: "string \<Rightarrow> bool" where
  "dotfree s \<longleftrightarrow> CHR ''.'' \<notin> set s"

definition dotted :: "string \<Rightarrow> string \<Rightarrow> string" where
  "dotted s a = s @ ''.'' @ a"

lemma dotted_eq_iff [simp]:
  assumes "dotfree a" and "dotfree b"
  shows "dotted s a = dotted t b \<longleftrightarrow> s = t \<and> a = b"
  using assms unfolding dotfree_def dotted_def
  by (auto simp: append_eq_append_conv2 Cons_eq_append_conv append_eq_Cons_conv)

lemma exchange_names_inj:
  "topicExchangeName s = topicExchangeName t \<longleftrightarrow> s = t"
  "serviceRequestExchangeName s = serviceRequestExchangeName t \<longleftrightarrow> s = t"
  "serviceResponseExchangeName s = serviceResponseExchangeName t \<longleftrightarrow> s = t"
  by (simp_all add: exchange_name_defs)

text \<open>Two names that end in different literals are different.\<close>

lemma ends_differ: "length u = length v \<Longrightarrow> u \<noteq> v \<Longrightarrow> s @ u \<noteq> t @ v"
  by simp

lemma exchange_names_disjoint:
  "topicExchangeName s \<noteq> serviceRequestExchangeName t"
  "topicExchangeName s \<noteq> serviceResponseExchangeName t"
  "serviceRequestExchangeName s \<noteq> serviceResponseExchangeName t"
  using ends_differ [of "''ange''" "''uest''" "s @ ''.topic.exch''" "t @ ''.direct.exchange.req''"]
    ends_differ [of "''ange''" "''onse''" "s @ ''.topic.exch''" "t @ ''.headers.exchange.resp''"]
    ends_differ [of "''uest''" "''onse''" "s @ ''.direct.exchange.req''" "t @ ''.headers.exchange.resp''"]
  by (simp_all add: exchange_name_defs)

lemma dotfree_literals [simp]:
  "dotfree ''queue''" "dotfree ''topic''" "dotfree ''headers''" "dotfree ''direct''" "dotfree ''request''" "dotfree ''response''" "dotfree ''exchange''"
  by (simp_all add: dotfree_def)

text \<open>The queue names, cut into their last segments.\<close>

lemma queue_name_segments:
  "serviceEventQueueName (topicExchangeName ex) svc =
     dotted (dotted (dotted (dotted ex ''topic'') ''exchange'') ''queue'') svc"
  "serviceResponseQueueName t svc =
     dotted (dotted (dotted (dotted (dotted t ''headers'') ''exchange'') ''response'') ''queue'') svc"
  "serviceRequestQueueName s =
     dotted (dotted (dotted (dotted s ''direct'') ''exchange'') ''request'') ''queue''"
  by (simp_all add: queue_name_defs exchange_name_defs dotted_def)

text \<open>
  For service names without a dot, a queue name identifies its pattern and both of its
  parts. Two event queues agree only if stream and service agree, two response queues only if
  target and service agree, two request queues only if the services agree, and queues of
  different patterns never have the same name.
\<close>

lemma queue_names_identify:
  assumes "dotfree svc" and "dotfree svc'"
  shows "(serviceEventQueueName (topicExchangeName ex) svc =
            serviceEventQueueName (topicExchangeName ex') svc' \<longleftrightarrow> ex = ex' \<and> svc = svc')
     \<and> (serviceResponseQueueName t svc = serviceResponseQueueName t' svc' \<longleftrightarrow> t = t' \<and> svc = svc')
     \<and> (serviceRequestQueueName s = serviceRequestQueueName s' \<longleftrightarrow> s = s')
     \<and> serviceEventQueueName (topicExchangeName ex) svc \<noteq> serviceResponseQueueName t svc'
     \<and> serviceEventQueueName (topicExchangeName ex) svc \<noteq> serviceRequestQueueName s
     \<and> serviceResponseQueueName t svc \<noteq> serviceRequestQueueName s"
  unfolding queue_name_segments using assms
  by auto

lemma queue_names_identify_witness:
  "dotfree ''orders'' \<and> dotfree ''billing''
   \<and> serviceEventQueueName (topicExchangeName ''events'') ''orders''
      \<noteq> serviceEventQueueName (topicExchangeName ''events'') ''billing''"
proof -
  have h: "dotfree ''orders''" "dotfree ''billing''" by (simp_all add: dotfree_def)
  from queue_names_identify [OF h, of "''events''" "''events''" "''x''" "''y''" "''x''" "''y''"]
  have "serviceEventQueueName (topicExchangeName ''events'') ''orders'' =
      serviceEventQueueName (topicExchangeName ''events'') ''billing''
    \<longleftrightarrow> ''events'' = ''events'' \<and> ''orders'' = ''billing''"
    by (rule conjunct1)
  with h show ?thesis by simp
qed

text \<open>
  Cutting the exchange off a queue name undoes every naming function: what remains is
  the part after the exchange's name, and a queue that does not carry the exchange's name (nor
  starts with a dot) is left as it is.
\<close>

lemma trimExchangeFromQueue_inverts:
  "trimExchangeFromQueue (serviceEventQueueName ex svc) ex = ''queue.'' @ svc
   \<and> trimExchangeFromQueue (serviceEventRandomQueueName ex svc u) ex = ''queue.'' @ svc @ ''-'' @ u
   \<and> trimExchangeFromQueue (serviceRequestQueueName svc) (serviceRequestExchangeName svc) = ''queue''
   \<and> trimExchangeFromQueue (serviceResponseQueueName t svc) (serviceResponseExchangeName t) = ''queue.'' @ svc
   \<and> (\<not> HasPrefix q ex \<longrightarrow> \<not> HasPrefix q ''.'' \<longrightarrow> trimExchangeFromQueue q ex = q)"
  by (simp add: trimExchangeFromQueue_def queue_name_defs TrimPrefix_other)

lemma trimExchangeFromQueue_inverts_witness:
  "trimExchangeFromQueue ''unrelated-queue'' ''events.topic.exchange'' = ''unrelated-queue''"
  using trimExchangeFromQueue_inverts [of "''events.topic.exchange''" "''svc''" "''u''" "''t''" "''unrelated-queue''"]
  by simp

text \<open>
  Two transient queues never share a name when the random parts drawn for them differ
  (UUID texts all have the same length), whatever their streams and services are.
\<close>

lemma transient_queue_names_differ:
  assumes "length u = length u'" and "u \<noteq> u'"
  shows "serviceEventRandomQueueName ex svc u \<noteq> serviceEventRandomQueueName ex' svc' u'"
  using assms ends_differ [of u u' "ex @ ''.queue.'' @ svc @ ''-''" "ex' @ ''.queue.'' @ svc' @ ''-''"]
  by (simp add: queue_name_defs)

lemma transient_queue_names_differ_witness:
  "serviceEventRandomQueueName ''events'' ''a'' ''u1'' \<noteq> serviceEventRandomQueueName ''events'' ''a'' ''u2''"
  using transient_queue_names_differ [of "''u1''" "''u2''" "''events''" "''a''" "''events''" "''a''"] by simp

end
