(* ===== verification/Runtime.thy ===== *)
theory Runtime
  imports Naming
begin

text \<open>
  The data of the program and the state its functions share.

  \<^item> Data: AMQP tables and messages, the event types of the module \<open>messaging\<close> (\<open>spec\<close>)
    as far as the sources read their fields, contexts and spans of OpenTelemetry, the struct
    types \<open>Publisher\<close> and \<open>Connection\<close> (here \<open>connCore\<close>: all fields but the handler registry,
    which \<open>Connection.thy\<close> adds, because handlers themselves act on this state).
  \<^item> \<open>lib\<close>: everything the sources call and do not define. Its constants and functions
    (\<open>amqp091-go\<close>, \<open>spec\<close>, \<open>uuid\<close>, \<open>time\<close>, \<open>os\<close>, OpenTelemetry) are fields of one record that
    every definition takes as its argument \<open>L\<close>; what a theorem needs of them is one of the named
    hypotheses below (\<open>ce_wire_format\<close>, \<open>queue_args_ok\<close> and those of the theories
    that use them).
  \<^item> \<open>io\<close>: the state. \<open>calls\<close> is the sequence of calls made on the AMQP client library;
    the library and the broker answer a call as a function of the calls before it
    (\<open>amqpErr\<close>), so a theorem for every \<open>L\<close> holds for every behaviour of the broker.
    \<open>pubs\<close> is the heap of \<open>*Publisher\<close> objects, \<open>confirmQ\<close> what the Go channels for publisher
    confirms hold, \<open>ticks\<close> and \<open>uuids\<close> count the readings of the clock and the UUIDs drawn.
  The records written to a log (\<open>slog\<close>) have no effect on any of this and are left out; the loggers are modelled, as a call on
  a nil logger panics.
\<close>

subsection \<open>Values, tables and messages\<close>

text \<open>Values of Go's type \<open>any\<close> in a table; \<open>GOther\<close> names the type of any other value.\<close>

datatype goval = GNil | GStr string | GBool bool | GInt int | GList "goval list" | GOther string

type_synonym table = "(string, goval) gomap"

record header =
  headerKey :: string
  headerValue :: goval

record publishing =
  Body :: string
  ContentType :: string
  DeliveryMode :: nat
  Headers :: table

record delivery =
  Tag :: nat
  Exchange :: string
  RoutingKey :: string
  deliveryHeaders :: table
  deliveryBody :: string

record confirmation =
  DeliveryTag :: nat
  Ack :: bool

record deliveryInfo =
  Destination :: string
  Source :: string
  Key :: string
  infoHeaders :: table

record metadata =
  ID :: string
  Type :: string
  MetaSource :: string
  Timestamp :: string
  SpecVersion :: string
  CorrelationID :: string

text \<open>A message as the compatibility-kit adapter records it (\<open>tck.ReceivedMessageWire\<close>).\<close>

record receivedMessage =
  wireRoutingKey :: string
  wirePayload :: string
  wireMetadata :: metadata
  wireDeliveryInfo :: deliveryInfo

datatype notificationSource = NotificationSourceConsumer

record notification =
  notifInfo :: deliveryInfo
  notifSource :: notificationSource
  notifDuration :: int

record errorNotification =
  errError :: goerr
  errInfo :: deliveryInfo
  errSource :: notificationSource
  errDuration :: int

text \<open>
  A Go channel written to without blocking: \<open>room\<close> counts the values it takes now (free
  buffer slots and waiting receivers), \<open>sent\<close> the values it took.
\<close>

record 'a gochan =
  room :: nat
  sent :: "'a list"

datatype direction = DirectionPublish | DirectionConsume

datatype pattern = PatternEventStream | PatternCustomStream | PatternServiceRequest
  | PatternServiceResponse | PatternQueuePublish

datatype exchangeKind = KindTopic | KindDirect | KindHeaders | KindUnset

record endpoint =
  Direction :: direction
  Pattern :: pattern
  ExchangeName :: string
  ExchangeKind :: exchangeKind
  QueueName :: string
  epRoutingKey :: string
  MessageType :: string
  Ephemeral :: bool

datatype transport = TransportAMQP

record topology =
  Transport :: transport
  ServiceName :: string
  Endpoints :: "endpoint list"


subsection \<open>Contexts and spans\<close>

datatype ctx = Background | UserCtx string | SpanCtx ctx nat
  | RemoteCtx ctx "(string \<times> string) list"

record propagator =
  Inject :: "ctx \<Rightarrow> (string, string) gomap"
  Extract :: "ctx \<Rightarrow> (string, string) gomap \<Rightarrow> ctx"

datatype tracer = Tracer nat string

datatype attrval = AString string | AInt int

type_synonym attr = "string \<times> attrval"

datatype spanKind = SpanKindConsumer | SpanKindProducer

datatype spanStatus = StatusOk | StatusError string

datatype spanEvent =
    SpanStart nat tracer ctx string spanKind "attr list"
  | SpanAttributes nat "attr list"
  | SpanError nat goerr
  | SpanStatus nat spanStatus
  | SpanEnd nat


subsection \<open>Channels, connections, and the calls on the AMQP library\<close>

text \<open>
  A value of the interface \<open>amqpChannel\<close>: the no-op channel of \<open>topology_export.go\<close> or a
  channel of the library, numbered in the order of opening. The same for \<open>amqpConnection\<close>: an
  \<open>amqpConn\<close> carries its own copies of \<open>prefetchLimit\<close> and \<open>closeListener\<close>.
\<close>

datatype amqpChannel = NoopChannel | AmqpChannel nat

datatype amqpConnection = NoopConnection
  | AmqpConn (connPrefetchLimit: int) (connCloseListener: "nat option")

record amqpConfigR =
  Heartbeat :: int
  Locale :: string
  connectionName :: string

datatype amqpCall =
    Dial string amqpConfigR
  | OpenChannel nat
  | Qos nat int int bool
  | NotifyChannelClose nat
  | NotifyConnectionClose
  | ExchangeDeclare nat string string bool bool bool bool "table option"
  | QueueDeclare nat string bool bool bool bool table
  | QueueBind nat string string string bool table
  | Consume nat string string bool bool bool bool "table option"
  | PublishWithContext nat ctx string string bool bool publishing
  | NotifyPublish nat nat
  | Confirm nat bool
  | CloseChannel nat
  | CloseConnection


text \<open>
  The goroutines that forward close notifications to a close listener: from one channel (to the
  listener of the \<open>amqpConn\<close> that opened it), or from the connection (to its listener at that time).
\<close>

datatype forwarder = FwdChannel nat nat | FwdConnection


subsection \<open>The structs Publisher and Connection\<close>

record publisher =
  channel :: "amqpChannel option"
  exchange :: string
  pubServiceName :: string
  defaultHeaders :: "header list"
  pubTracer :: "tracer option"
  pubPropagator :: "propagator option"
  pubSpanNameFn :: "(string \<Rightarrow> string \<Rightarrow> string) option"
  confirmCh :: "nat option"
  noConfirm :: bool

text \<open>
  Structured loggers (\<open>slog\<close>): where the records go, and the attributes that \<open>With\<close> adds to each of them.
\<close>

datatype logSink = DefaultLog | DiscardLog | UserLog nat

datatype logger = Logger (logSink: logSink) (logAttrs: "(string \<times> string) list")

definition slogDefault :: logger where
  "slogDefault = Logger DefaultLog []"

definition logWith :: "string \<Rightarrow> string \<Rightarrow> logger \<Rightarrow> logger" where
  "logWith key v l = Logger (logSink l) (logAttrs l @ [(key, v)])"

record connCore =
  started :: bool
  serviceName :: string
  amqpUri :: string
  connection :: "amqpConnection option"
  setupChannel :: "amqpChannel option"
  responseChannel :: "amqpChannel option"
  notificationCh :: "nat option"
  errorCh :: "nat option"
  spanNameFn :: "(deliveryInfo \<Rightarrow> string) option"
  publishSpanNameFn :: "(string \<Rightarrow> string \<Rightarrow> string) option"
  consumerChannels :: "amqpChannel list"
  closeListener :: "nat option"
  prefetchLimit :: int
  logger :: "logger option"
  topology :: topology
  tracerProvider :: "nat option"
  connPropagator :: "propagator option"
  legacySupport :: bool


subsection \<open>Metrics\<close>

datatype counter = eventReceivedCounter | eventWithoutHandlerCounter | eventNotParsableCounter
  | eventNackCounter | eventAckCounter | eventPublishSucceedCounter | eventPublishFailedCounter

datatype histogram = eventProcessedDuration | eventPublishDuration

record metrics =
  counters :: "counter \<Rightarrow> string list \<Rightarrow> nat"
  observations :: "histogram \<Rightarrow> string list \<Rightarrow> int list"
  routingKeyMapper :: "string \<Rightarrow> string"


subsection \<open>The libraries\<close>

record lib =
  QueueTypeArg :: string
  QueueTypeQuorum :: string
  SingleActiveConsumerArg :: string
  QueueTTLArg :: string
  AMQPCEHeaderKey :: "string \<Rightarrow> string"
  CEAttrSpecVersion :: string
  CEAttrType :: string
  CEAttrSource :: string
  CEAttrDataContentType :: string
  CEAttrTime :: string
  CEAttrID :: string
  CESpecVersionValue :: string
  MatchRoutingKey :: "string \<Rightarrow> string \<Rightarrow> bool"
  RoutingKeyOverlaps :: "string \<Rightarrow> string \<Rightarrow> bool"
  NormalizeCEHeaders :: "table \<Rightarrow> table"
  HasCEHeaders :: "table \<Rightarrow> bool"
  ValidateCEHeaders :: "table \<Rightarrow> string list"
  MetadataFromHeaders :: "table \<Rightarrow> metadata"
  EnrichLegacyMetadata ::
    "metadata \<Rightarrow> deliveryInfo \<Rightarrow> (nat \<Rightarrow> string \<times> nat) \<Rightarrow> nat \<Rightarrow> metadata \<times> nat"
  ErrParseJSONText :: string
  typeNameOf :: "goval \<Rightarrow> string"
  newUUID :: "nat \<Rightarrow> string"
  clock :: "nat \<Rightarrow> int"
  RFC3339 :: "int \<Rightarrow> string"
  ParseURI :: "string \<Rightarrow> string + string"
  buildDeps :: "(string \<times> string) list option"
  osHostname :: "string + string"
  globalTracerProvider :: nat
  globalPropagator :: propagator
  amqpErr :: "amqpCall list \<Rightarrow> amqpCall \<Rightarrow> string option"
  arrivals :: "amqpCall list \<Rightarrow> nat \<Rightarrow> confirmation list"
  ctxErr :: "amqpCall list \<Rightarrow> ctx \<Rightarrow> string option"
  selectsConfirm :: "amqpCall list \<Rightarrow> bool"


subsection \<open>The state\<close>

record io =
  calls :: "amqpCall list"
  nextChan :: nat
  forwarders :: "forwarder list"
  pubs :: "nat \<Rightarrow> publisher"
  confirmQ :: "nat \<Rightarrow> confirmation list"
  nextConfirmCh :: nat
  metricsSt :: metrics
  spanLog :: "spanEvent list"
  nextSpan :: nat
  uuids :: nat
  ticks :: nat
  notifications :: "nat \<Rightarrow> notification gochan"
  errorNotifications :: "nat \<Rightarrow> errorNotification gochan"
  core :: connCore
  nextPub :: nat
  captured :: "nat \<Rightarrow> receivedMessage list"
  nextCapture :: nat

text \<open>A call on the AMQP library: it is recorded, and the library answers.\<close>

definition invoke :: "lib \<Rightarrow> amqpCall \<Rightarrow> (io, unit) M" where
  "invoke L c s =
     (case amqpErr L (calls s) c of None \<Rightarrow> Ok () | Some e \<Rightarrow> Err (ErrText e),
      s\<lparr>calls := calls s @ [c]\<rparr>)"

text \<open>A call whose answer the program does not look at.\<close>

definition recordCall :: "amqpCall \<Rightarrow> (io, unit) M" where
  "recordCall c = putM (\<lambda>s. s\<lparr>calls := calls s @ [c]\<rparr>)"

text \<open>\<open>uuid.New().String()\<close> and \<open>time.Now()\<close> (in milliseconds).\<close>

definition uuidNew :: "lib \<Rightarrow> (io, string) M" where
  "uuidNew L s = (Ok (newUUID L (uuids s)), s\<lparr>uuids := Suc (uuids s)\<rparr>)"

definition timeNow :: "lib \<Rightarrow> (io, int) M" where
  "timeNow L s = (Ok (clock L (ticks s)), s\<lparr>ticks := Suc (ticks s)\<rparr>)"


subsection \<open>Named hypotheses on the libraries\<close>

text \<open>
  The CloudEvents binding for AMQP: an attribute \<open>a\<close> travels in the header
  \<open>cloudEvents:a\<close>, and the six attributes the publisher sets are different.
\<close>

definition ce_attrs :: "lib \<Rightarrow> string list" where
  "ce_attrs L = [CEAttrSpecVersion L, CEAttrType L, CEAttrSource L, CEAttrDataContentType L,
     CEAttrTime L, CEAttrID L]"

definition ce_wire_format :: "lib \<Rightarrow> bool" where
  "ce_wire_format L \<longleftrightarrow> AMQPCEHeaderKey L = (\<lambda>a. ''cloudEvents:'' @ a) \<and> distinct (ce_attrs L)"

text \<open>The names of the queue arguments of the AMQP library are different.\<close>

definition queue_args_ok :: "lib \<Rightarrow> bool" where
  "queue_args_ok L \<longleftrightarrow> distinct [QueueTypeArg L, SingleActiveConsumerArg L, QueueTTLArg L,
     ''x-dead-letter-exchange'', ''x-dead-letter-routing-key'']"

lemma invoke_run [run_simps]:
  "invoke L c s =
     (case amqpErr L (calls s) c of None \<Rightarrow> (Ok (), s\<lparr>calls := calls s @ [c]\<rparr>)
      | Some e \<Rightarrow> (Err (ErrText e), s\<lparr>calls := calls s @ [c]\<rparr>))"
  by (simp add: invoke_def split: option.split)

lemma recordCall_run [run_simps]: "recordCall c s = (Ok (), s\<lparr>calls := calls s @ [c]\<rparr>)"
  by (simp add: recordCall_def putM_def)

lemma uuidNew_run [run_simps]:
  "uuidNew L s = (Ok (newUUID L (uuids s)), s\<lparr>uuids := Suc (uuids s)\<rparr>)"
  by (simp add: uuidNew_def)

lemma timeNow_run [run_simps]:
  "timeNow L s = (Ok (clock L (ticks s)), s\<lparr>ticks := Suc (ticks s)\<rparr>)"
  by (simp add: timeNow_def)

text \<open>The log of calls only ever grows.\<close>

definition calls_grow :: "io \<Rightarrow> io \<Rightarrow> bool" where
  "calls_grow s t \<longleftrightarrow> (\<exists>cs. calls t = calls s @ cs)"

interpretation calls_grow: effect_rel calls_grow
  by unfold_locales (auto simp: calls_grow_def)

lemma calls_grow_prims [keeps_rules]:
  "keeps calls_grow (invoke L c)" "keeps calls_grow (recordCall c)"
  "keeps calls_grow (uuidNew L)" "keeps calls_grow (timeNow L)"
  by (auto simp: keeps_def calls_grow_def run_simps split: option.split)

end
