(* ===== verification/Reference_Libs.thy ===== *)
theory Reference_Libs
  imports Runtime
begin

text \<open>
  A concrete instance of the library parameters, \<open>demoLib\<close>, and an initial state, \<open>demoIO\<close>.
  They model no code of the repository: they show that the named hypotheses of the
  development can hold together, and the witnesses evaluate the model at them. Routing keys are
  matched as the documentation of the consumers describes (\<open>*\<close> one word, \<open>#\<close> any number),
  CloudEvents headers are read under the three prefixes the consumer accepts, every call on
  the AMQP library succeeds and every publish is confirmed with an ack.
\<close>

subsection \<open>Topic patterns\<close>

fun splitDots :: "string \<Rightarrow> string list" where
  "splitDots [] = [[]]"
| "splitDots (c # s) =
     (if c = CHR ''.'' then [] # splitDots s
      else (case splitDots s of w # ws \<Rightarrow> (c # w) # ws | [] \<Rightarrow> [[c]]))"

fun topicMatch :: "string list \<Rightarrow> string list \<Rightarrow> bool" where
  "topicMatch [] [] = True"
| "topicMatch [] (w # ws) = False"
| "topicMatch (p # ps) [] = (p = ''#'' \<and> topicMatch ps [])"
| "topicMatch (p # ps) (w # ws) =
     (if p = ''#'' then topicMatch ps (w # ws) \<or> topicMatch (p # ps) ws
      else (p = ''*'' \<or> p = w) \<and> topicMatch ps ws)"

fun topicOverlap :: "string list \<Rightarrow> string list \<Rightarrow> bool" where
  "topicOverlap [] [] = True"
| "topicOverlap [] (q # qs) = (q = ''#'' \<and> topicOverlap [] qs)"
| "topicOverlap (p # ps) [] = (p = ''#'' \<and> topicOverlap ps [])"
| "topicOverlap (p # ps) (q # qs) =
     ((p = ''#'' \<and> (topicOverlap ps (q # qs) \<or> topicOverlap (p # ps) qs)) \<or>
      (q = ''#'' \<and> (topicOverlap (p # ps) qs \<or> topicOverlap ps (q # qs))) \<or>
      ((p = ''*'' \<or> q = ''*'' \<or> p = q) \<and> topicOverlap ps qs))"


subsection \<open>Propagation and CloudEvents headers\<close>

definition traceparentPropagator :: propagator where
  "traceparentPropagator =
     \<lparr>Inject = (\<lambda>c. case c of SpanCtx _ n \<Rightarrow> [(''traceparent'', replicate n CHR ''1'')] | _ \<Rightarrow> []),
      Extract = (\<lambda>c m. case map_of m ''traceparent'' of
        None \<Rightarrow> c | Some v \<Rightarrow> RemoteCtx c [(''traceparent'', v)])\<rparr>"

definition canonicalCEKey :: "string \<Rightarrow> string" where
  "canonicalCEKey k =
     (if HasPrefix k ''cloudEvents:'' then ''ce-'' @ TrimPrefix k ''cloudEvents:''
      else if HasPrefix k ''cloudEvents_'' then ''ce-'' @ TrimPrefix k ''cloudEvents_''
      else k)"

definition stringAt :: "table \<Rightarrow> string \<Rightarrow> string" where
  "stringAt h k = (case map_of h k of Some (GStr v) \<Rightarrow> v | _ \<Rightarrow> [])"

fun isPublishOn :: "nat \<Rightarrow> amqpCall \<Rightarrow> bool" where
  "isPublishOn n (PublishWithContext m c ex rk b1 b2 msg) = (m = n)"
| "isPublishOn n c = False"

definition demoLib :: lib where
  "demoLib =
     \<lparr>QueueTypeArg = ''x-queue-type'', QueueTypeQuorum = ''quorum'',
      SingleActiveConsumerArg = ''x-single-active-consumer'', QueueTTLArg = ''x-expires'',
      AMQPCEHeaderKey = (\<lambda>a. ''cloudEvents:'' @ a),
      CEAttrSpecVersion = ''specversion'', CEAttrType = ''type'', CEAttrSource = ''source'',
      CEAttrDataContentType = ''datacontenttype'', CEAttrTime = ''time'', CEAttrID = ''id'',
      CESpecVersionValue = ''1.0'',
      MatchRoutingKey = (\<lambda>p k. topicMatch (splitDots p) (splitDots k)),
      RoutingKeyOverlaps = (\<lambda>p q. topicOverlap (splitDots p) (splitDots q)),
      NormalizeCEHeaders = map (\<lambda>(k, v). (canonicalCEKey k, v)),
      HasCEHeaders = list_ex (\<lambda>(k, v). HasPrefix k ''ce-''),
      ValidateCEHeaders = (\<lambda>h. filter (\<lambda>k. map_of h k = None) [''ce-id'', ''ce-type'', ''ce-source'']),
      MetadataFromHeaders = (\<lambda>h. \<lparr>ID = stringAt h ''ce-id'', Type = stringAt h ''ce-type'',
        MetaSource = stringAt h ''ce-source'', Timestamp = stringAt h ''ce-time'',
        SpecVersion = stringAt h ''ce-specversion'', CorrelationID = stringAt h ''ce-correlationid''\<rparr>),
      EnrichLegacyMetadata = (\<lambda>m info gen n. let (u, n') = gen n in
        (m\<lparr>ID := u, Type := Key info, MetaSource := Source info, SpecVersion := ''1.0''\<rparr>, n')),
      ErrParseJSONText = ''failed to parse JSON'',
      typeNameOf = (\<lambda>_. ''any''),
      newUUID = (\<lambda>n. ''u'' @ replicate n CHR ''x''),
      clock = int,
      RFC3339 = (\<lambda>_. ''2026-01-01T00:00:00Z''),
      ParseURI = (\<lambda>u. if HasPrefix u ''amqp://'' then Inr u else Inl ''bad scheme''),
      buildDeps = None,
      osHostname = Inr ''host'',
      globalTracerProvider = 0,
      globalPropagator = traceparentPropagator,
      amqpErr = (\<lambda>_ _. None),
      arrivals = (\<lambda>h q. [\<lparr>DeliveryTag = length (filter (isPublishOn q) h), Ack = True\<rparr>]),
      ctxErr = (\<lambda>_ _. None),
      selectsConfirm = (\<lambda>_. True)\<rparr>"

definition demoMetadata :: metadata where
  "demoMetadata = \<lparr>ID = ''1'', Type = ''t'', MetaSource = ''s'', Timestamp = [], SpecVersion = ''1.0'',
     CorrelationID = []\<rparr>"

definition demoCore :: connCore where
  "demoCore =
     \<lparr>started = False, serviceName = ''svc'', amqpUri = ''amqp://h'', connection = None,
      setupChannel = None, responseChannel = None, notificationCh = None, errorCh = None,
      spanNameFn = None, publishSpanNameFn = None, consumerChannels = [], closeListener = None,
      prefetchLimit = 20, logger = Some (logWith ''service'' ''svc'' slogDefault),
      topology = \<lparr>Transport = TransportAMQP, ServiceName = ''svc'', Endpoints = []\<rparr>,
      tracerProvider = None, connPropagator = None, legacySupport = False\<rparr>"

definition demoPublisher :: publisher where
  "demoPublisher =
     \<lparr>channel = Some (AmqpChannel 0), exchange = ''events.topic.exchange'', pubServiceName = ''svc'',
      defaultHeaders = [\<lparr>headerKey = ''service'', headerValue = GStr ''svc''\<rparr>],
      pubTracer = None, pubPropagator = None, pubSpanNameFn = None, confirmCh = Some 0,
      noConfirm = False\<rparr>"

definition demoIO :: io where
  "demoIO =
     \<lparr>calls = [], nextChan = 1, forwarders = [], pubs = (\<lambda>_. demoPublisher), confirmQ = (\<lambda>_. []),
      nextConfirmCh = 1,
      metricsSt = \<lparr>counters = (\<lambda>_ _. 0), observations = (\<lambda>_ _. []), routingKeyMapper = (\<lambda>s. s)\<rparr>,
      spanLog = [], nextSpan = 0, uuids = 0, ticks = 0,
      notifications = (\<lambda>_. \<lparr>room = 1, sent = []\<rparr>),
      errorNotifications = (\<lambda>_. \<lparr>room = 1, sent = []\<rparr>),
      core = demoCore, nextPub = 2, captured = (\<lambda>_. []), nextCapture = 0\<rparr>"

lemma demoLib_simps [simp]:
  "QueueTypeArg demoLib = ''x-queue-type''"
  "QueueTypeQuorum demoLib = ''quorum''"
  "SingleActiveConsumerArg demoLib = ''x-single-active-consumer''"
  "QueueTTLArg demoLib = ''x-expires''"
  "AMQPCEHeaderKey demoLib = (\<lambda>a. ''cloudEvents:'' @ a)"
  "CEAttrSpecVersion demoLib = ''specversion''"
  "CEAttrType demoLib = ''type''"
  "CEAttrSource demoLib = ''source''"
  "CEAttrDataContentType demoLib = ''datacontenttype''"
  "CEAttrTime demoLib = ''time''"
  "CEAttrID demoLib = ''id''"
  "CESpecVersionValue demoLib = ''1.0''"
  "MatchRoutingKey demoLib = (\<lambda>p k. topicMatch (splitDots p) (splitDots k))"
  "RoutingKeyOverlaps demoLib = (\<lambda>p q. topicOverlap (splitDots p) (splitDots q))"
  "NormalizeCEHeaders demoLib = map (\<lambda>(k, v). (canonicalCEKey k, v))"
  "HasCEHeaders demoLib = list_ex (\<lambda>(k, v). HasPrefix k ''ce-'')"
  "ValidateCEHeaders demoLib = (\<lambda>h. filter (\<lambda>k. map_of h k = None) [''ce-id'', ''ce-type'', ''ce-source''])"
  "MetadataFromHeaders demoLib = (\<lambda>h. \<lparr>ID = stringAt h ''ce-id'', Type = stringAt h ''ce-type'', MetaSource = stringAt h ''ce-source'', Timestamp = stringAt h ''ce-time'', SpecVersion = stringAt h ''ce-specversion'', CorrelationID = stringAt h ''ce-correlationid''\<rparr>)"
  "EnrichLegacyMetadata demoLib = (\<lambda>m info gen n. let (u, n') = gen n in (m\<lparr>ID := u, Type := Key info, MetaSource := Source info, SpecVersion := ''1.0''\<rparr>, n'))"
  "ErrParseJSONText demoLib = ''failed to parse JSON''"
  "typeNameOf demoLib = (\<lambda>_. ''any'')"
  "newUUID demoLib = (\<lambda>n. ''u'' @ replicate n CHR ''x'')"
  "clock demoLib = int"
  "RFC3339 demoLib = (\<lambda>_. ''2026-01-01T00:00:00Z'')"
  "ParseURI demoLib = (\<lambda>u. if HasPrefix u ''amqp://'' then Inr u else Inl ''bad scheme'')"
  "buildDeps demoLib = None"
  "osHostname demoLib = Inr ''host''"
  "globalTracerProvider demoLib = 0"
  "globalPropagator demoLib = traceparentPropagator"
  "amqpErr demoLib = (\<lambda>_ _. None)"
  "arrivals demoLib = (\<lambda>h q. [\<lparr>DeliveryTag = length (filter (isPublishOn q) h), Ack = True\<rparr>])"
  "ctxErr demoLib = (\<lambda>_ _. None)"
  "selectsConfirm demoLib = (\<lambda>_. True)"
  by (simp_all add: demoLib_def)

lemma demoCore_simps [simp]:
  "started demoCore = False"
  "serviceName demoCore = ''svc''"
  "amqpUri demoCore = ''amqp://h''"
  "connection demoCore = None"
  "setupChannel demoCore = None"
  "responseChannel demoCore = None"
  "notificationCh demoCore = None"
  "errorCh demoCore = None"
  "spanNameFn demoCore = None"
  "publishSpanNameFn demoCore = None"
  "consumerChannels demoCore = []"
  "closeListener demoCore = None"
  "prefetchLimit demoCore = 20"
  "topology demoCore = \<lparr>Transport = TransportAMQP, ServiceName = ''svc'', Endpoints = []\<rparr>"
  "tracerProvider demoCore = None"
  "connPropagator demoCore = None"
  "legacySupport demoCore = False"
  by (simp_all add: demoCore_def)

lemma demoPublisher_simps [simp]:
  "channel demoPublisher = Some (AmqpChannel 0)"
  "exchange demoPublisher = ''events.topic.exchange''"
  "pubServiceName demoPublisher = ''svc''"
  "defaultHeaders demoPublisher = [\<lparr>headerKey = ''service'', headerValue = GStr ''svc''\<rparr>]"
  "pubTracer demoPublisher = None"
  "pubPropagator demoPublisher = None"
  "pubSpanNameFn demoPublisher = None"
  "confirmCh demoPublisher = Some 0"
  "noConfirm demoPublisher = False"
  by (simp_all add: demoPublisher_def)

lemma demoIO_simps [simp]:
  "calls demoIO = []"
  "nextChan demoIO = 1"
  "forwarders demoIO = []"
  "pubs demoIO = (\<lambda>_. demoPublisher)"
  "confirmQ demoIO = (\<lambda>_. [])"
  "nextConfirmCh demoIO = 1"
  "metricsSt demoIO = \<lparr>counters = (\<lambda>_ _. 0), observations = (\<lambda>_ _. []), routingKeyMapper = (\<lambda>s. s)\<rparr>"
  "spanLog demoIO = []"
  "nextSpan demoIO = 0"
  "uuids demoIO = 0"
  "ticks demoIO = 0"
  "notifications demoIO = (\<lambda>_. \<lparr>room = 1, sent = []\<rparr>)"
  "errorNotifications demoIO = (\<lambda>_. \<lparr>room = 1, sent = []\<rparr>)"
  "core demoIO = demoCore"
  "nextPub demoIO = 2"
  "captured demoIO = (\<lambda>_. [])"
  "nextCapture demoIO = 0"
  by (simp_all add: demoIO_def)

lemma demoLib_ce [simp]: "ce_wire_format demoLib"
  by (simp add: ce_wire_format_def ce_attrs_def demoLib_def)

lemma demoLib_args [simp]: "queue_args_ok demoLib"
  by (simp add: queue_args_ok_def demoLib_def)

lemma topicOverlap_if_common_match:
  "topicMatch p k \<Longrightarrow> topicMatch q k \<Longrightarrow> topicOverlap p q"
proof (induction k arbitrary: p q)
  case Nil
  have "topicMatch p [] \<Longrightarrow> topicMatch q [] \<Longrightarrow> topicOverlap p q" for p q
    by (induction p q rule: topicOverlap.induct) auto
  with Nil show ?case by blast
next
  case (Cons w ws)
  show ?case using Cons.prems
  proof (induction p q rule: topicOverlap.induct)
    case (4 p ps q qs)
    then show ?case
      using Cons.IH [of "p # ps" qs] Cons.IH [of ps "q # qs"] Cons.IH [of ps qs] Cons.IH [of "p # ps" "q # qs"]
      by (auto split: if_splits)
  qed (auto split: if_splits)
qed

end
