(* ===== verification/Tracing.thy ===== *)
theory Tracing
  imports Reference_Libs
begin

text \<open>
  Tracing, \<open>tracing.go\<close>: span attributes, the fallbacks to the global tracer provider and
  propagator, and the transport of a trace context in message headers. Spans are recorded as the
  sequence of events on them (\<open>spanLog\<close>). The lemmas show that what a publisher injects is what
  a consumer extracts.
\<close>

definition tracerName :: string where
  "tracerName = ''github.com/sparetimecoders/go-messaging-amqp''"

definition attrMessagingSystem :: attr where
  "attrMessagingSystem = (''messaging.system'', AString ''rabbitmq'')"

definition attrMessagingOperationKey :: string where
  "attrMessagingOperationKey = ''messaging.operation''"

definition attrMessagingDestKey :: string where
  "attrMessagingDestKey = ''messaging.destination.name''"

definition attrMessagingRoutingKey :: string where
  "attrMessagingRoutingKey = ''messaging.rabbitmq.routing_key''"

definition attrMessagingMessageID :: string where
  "attrMessagingMessageID = ''messaging.message.id''"

definition attrMessagingBodySize :: string where
  "attrMessagingBodySize = ''messaging.message.body.size''"

definition attrMessagingClientID :: string where
  "attrMessagingClientID = ''messaging.client_id''"

definition tracerFromProvider :: "lib \<Rightarrow> nat option \<Rightarrow> tracer" where
  "tracerFromProvider L provider =
     Tracer (case provider of None \<Rightarrow> globalTracerProvider L | Some p \<Rightarrow> p) tracerName"

definition consumerSpanAttributes :: "deliveryInfo \<Rightarrow> string \<Rightarrow> string \<Rightarrow> int \<Rightarrow> attr list" where
  "consumerSpanAttributes info svc messageID bodySize =
     [attrMessagingSystem,
      (attrMessagingOperationKey, AString ''receive''),
      (attrMessagingDestKey, AString (Source info)),
      (attrMessagingRoutingKey, AString (Key info)),
      (''messaging.destination.queue'', AString (Destination info)),
      (attrMessagingBodySize, AInt bodySize),
      (attrMessagingClientID, AString svc)]
     @ (if messageID \<noteq> [] then [(attrMessagingMessageID, AString messageID)] else [])"

definition publishSpanAttributes :: "string \<Rightarrow> string \<Rightarrow> string \<Rightarrow> attr list" where
  "publishSpanAttributes exch routingKey svc =
     [attrMessagingSystem,
      (attrMessagingOperationKey, AString ''publish''),
      (attrMessagingDestKey, AString exch),
      (attrMessagingRoutingKey, AString routingKey),
      (attrMessagingClientID, AString svc)]"

definition defaultPublishSpanName :: "string \<Rightarrow> string \<Rightarrow> string" where
  "defaultPublishSpanName exch routingKey = ''publish '' @ routingKey"

definition propagatorOrGlobal :: "lib \<Rightarrow> propagator option \<Rightarrow> propagator" where
  "propagatorOrGlobal L p = (case p of Some q \<Rightarrow> q | None \<Rightarrow> globalPropagator L)"

definition injectToHeaders :: "lib \<Rightarrow> ctx \<Rightarrow> table \<Rightarrow> propagator option \<Rightarrow> table" where
  "injectToHeaders L c headers p =
     fold (\<lambda>(k, v) h. AList.update k (GStr v) h) (Inject (propagatorOrGlobal L p) c) headers"

fun stringHeaders :: "table \<Rightarrow> (string, string) gomap \<Rightarrow> (string, string) gomap" where
  "stringHeaders [] carrier = carrier"
| "stringHeaders ((k, GStr v) # h) carrier = stringHeaders h (AList.update k v carrier)"
| "stringHeaders (_ # h) carrier = stringHeaders h carrier"

definition extractToContext :: "lib \<Rightarrow> ctx \<Rightarrow> table \<Rightarrow> propagator option \<Rightarrow> ctx" where
  "extractToContext L c headers p = Extract (propagatorOrGlobal L p) c (stringHeaders headers [])"

text \<open>\<open>tracer.Start\<close> and the operations on a span.\<close>

definition startSpan :: "tracer \<Rightarrow> ctx \<Rightarrow> string \<Rightarrow> spanKind \<Rightarrow> attr list \<Rightarrow> (io, ctx \<times> nat) M" where
  "startSpan tr c name kind attrs s =
     (Ok (SpanCtx c (nextSpan s), nextSpan s),
      s\<lparr>nextSpan := Suc (nextSpan s),
        spanLog := spanLog s @ [SpanStart (nextSpan s) tr c name kind attrs]\<rparr>)"

definition spanDo :: "spanEvent \<Rightarrow> (io, unit) M" where
  "spanDo ev = putM (\<lambda>s. s\<lparr>spanLog := spanLog s @ [ev]\<rparr>)"

text \<open>\<open>span.RecordError(err); span.SetStatus(codes.Error, err.Error())\<close>\<close>

definition spanFailed :: "lib \<Rightarrow> nat \<Rightarrow> goerr \<Rightarrow> (io, unit) M" where
  "spanFailed L sp e =
     thenM (spanDo (SpanError sp e)) (spanDo (SpanStatus sp (StatusError (Error (ErrParseJSONText L) e))))"

text \<open>\<open>defer span.End()\<close>: the span ends however the rest of the function returns.\<close>

definition deferEnd :: "nat \<Rightarrow> (io, 'a) M \<Rightarrow> (io, 'a) M" where
  "deferEnd sp m s = (case m s of (r, t) \<Rightarrow> (r, t\<lparr>spanLog := spanLog t @ [SpanEnd sp]\<rparr>))"

lemma startSpan_run [run_simps]:
  "startSpan tr c name kind attrs s =
     (Ok (SpanCtx c (nextSpan s), nextSpan s),
      s\<lparr>nextSpan := Suc (nextSpan s),
        spanLog := spanLog s @ [SpanStart (nextSpan s) tr c name kind attrs]\<rparr>)"
  by (simp add: startSpan_def)

lemma spanDo_run [run_simps]: "spanDo ev s = (Ok (), s\<lparr>spanLog := spanLog s @ [ev]\<rparr>)"
  by (simp add: spanDo_def run_simps)

lemma deferEnd_run [run_simps]:
  "deferEnd sp m s = (case m s of (r, t) \<Rightarrow> (r, t\<lparr>spanLog := spanLog t @ [SpanEnd sp]\<rparr>))"
  by (simp add: deferEnd_def)

lemma spanFailed_run [run_simps]:
  "spanFailed L sp e s = (Ok (), s\<lparr>spanLog := spanLog s @
     [SpanError sp e, SpanStatus sp (StatusError (Error (ErrParseJSONText L) e))]\<rparr>)"
  by (simp add: spanFailed_def run_simps)

lemma calls_grow_tracing [keeps_rules]:
  "keeps calls_grow (startSpan tr c name kind attrs)"
  "keeps calls_grow (spanDo ev)"
  "keeps calls_grow (spanFailed L sp e)"
  "keeps calls_grow m \<Longrightarrow> keeps calls_grow (deferEnd sp m)"
  by (auto simp: keeps_def calls_grow_def run_simps split: prod.split) (metis snd_conv)

lemma map_of_fold_GStr:
  "gomap_ok carrier \<Longrightarrow>
   map_of (fold (\<lambda>(k, v) h. AList.update k (GStr v) h) carrier h) k =
     (case map_of carrier k of Some v \<Rightarrow> Some (GStr v) | None \<Rightarrow> map_of h k)"
  by (induction carrier arbitrary: h)
    (auto simp: gomap_ok_def map_of_eq_None_iff [THEN iffD2] split: option.split)

lemma gomap_ok_fold_GStr:
  "gomap_ok h \<Longrightarrow> gomap_ok (fold (\<lambda>(k, v) h. AList.update k (GStr v) h) carrier h)"
  by (induction carrier arbitrary: h) auto

lemma gomap_ok_inject [simp]: "gomap_ok h \<Longrightarrow> gomap_ok (injectToHeaders L c h p)"
  by (simp add: injectToHeaders_def gomap_ok_fold_GStr)

lemma map_of_stringHeaders:
  "gomap_ok h \<Longrightarrow> map_of (stringHeaders h carrier) k =
     (case map_of h k of Some (GStr v) \<Rightarrow> Some v | _ \<Rightarrow> map_of carrier k)"
proof (induction h carrier rule: stringHeaders.induct)
  case (2 k' v h carrier)
  then show ?case
    by (auto simp: gomap_ok_def map_of_eq_None_iff [THEN iffD2] split: option.split goval.split)
qed (auto simp: gomap_ok_def map_of_eq_None_iff [THEN iffD2] split: option.split)

text \<open>
  A propagator that works on a fixed set of fields (OpenTelemetry's \<open>Fields()\<close>): it
  writes only those into a carrier, each once, and what it extracts depends on nothing else.
\<close>

definition propagates_fields :: "propagator \<Rightarrow> string set \<Rightarrow> bool" where
  "propagates_fields p F \<longleftrightarrow>
     (\<forall>c. gomap_ok (Inject p c) \<and> set (gokeys (Inject p c)) \<subseteq> F) \<and>
     (\<forall>c m m'. (\<forall>k \<in> F. map_of m k = map_of m' k) \<longrightarrow> Extract p c m = Extract p c m')"

lemma inject_other:
  assumes "propagates_fields (propagatorOrGlobal L p) F" and "k \<notin> F"
  shows "map_of (injectToHeaders L c h p) k = map_of h k"
proof -
  let ?car = "Inject (propagatorOrGlobal L p) c"
  from assms have "gomap_ok ?car" "map_of ?car k = None"
    by (auto simp: propagates_fields_def map_of_eq_None_iff)
  then show ?thesis by (simp add: injectToHeaders_def map_of_fold_GStr)
qed

lemma inject_field:
  assumes "propagates_fields (propagatorOrGlobal L p) F" and "gomap_ok h" and "map_of h k = None"
  shows "map_of (stringHeaders (injectToHeaders L c h p) []) k = map_of (Inject (propagatorOrGlobal L p) c) k"
proof -
  from assms(1) have "gomap_ok (Inject (propagatorOrGlobal L p) c)"
    by (auto simp: propagates_fields_def)
  with assms(2,3) show ?thesis
    by (simp add: map_of_stringHeaders injectToHeaders_def map_of_fold_GStr gomap_ok_fold_GStr
        split: option.split)
qed

text \<open>
  Trace context travels through the headers of a message. For every propagator that
  works on a set of fields, and headers that do not use these fields, extracting from the headers
  after injection gives the same context as extracting from the injected carrier itself; all other
  headers are untouched.
\<close>

lemma inject_then_extract:
  assumes "propagates_fields (propagatorOrGlobal L p) F" and "gomap_ok h"
    and "set (gokeys h) \<inter> F = {}"
  shows "extractToContext L c' (injectToHeaders L c h p) p =
      Extract (propagatorOrGlobal L p) c' (Inject (propagatorOrGlobal L p) c)
    \<and> (\<forall>k. k \<notin> F \<longrightarrow> map_of (injectToHeaders L c h p) k = map_of h k)"
proof -
  have "map_of h k = None" if "k \<in> F" for k
    using that assms(3) by (auto simp: map_of_eq_None_iff)
  then have "\<forall>k \<in> F. map_of (stringHeaders (injectToHeaders L c h p) []) k =
      map_of (Inject (propagatorOrGlobal L p) c) k"
    using assms(1,2) by (simp add: inject_field)
  then show ?thesis
    using assms(1) inject_other [OF assms(1)]
    by (simp add: extractToContext_def propagates_fields_def)
qed

lemma traceparentPropagator_fields: "propagates_fields traceparentPropagator {''traceparent''}"
  by (auto simp: propagates_fields_def traceparentPropagator_def gomap_ok_def split: ctx.split)

lemma inject_then_extract_witness:
  "extractToContext demoLib Background
     (injectToHeaders demoLib (SpanCtx Background 3) [(''service'', GStr ''a'')] None) None
   = RemoteCtx Background [(''traceparent'', ''111'')]"
  using inject_then_extract [of demoLib None "{''traceparent''}"
      "[(''service'', GStr ''a'')]" Background "SpanCtx Background 3"] traceparentPropagator_fields
  by (simp add: propagatorOrGlobal_def demoLib_def traceparentPropagator_def gomap_ok_def numeral_3_eq_3)

end
