(* ===== verification/Handler_Model.thy ===== *)
theory Handler_Model
  imports Tracing
begin

text \<open>
  Handlers, \<open>handler.go\<close>, \<open>consumableEvent.go\<close> and \<open>TypeMappingHandler\<close> of
  \<open>setup_consumer.go\<close>. A handler of the program's user is any state transformer on \<open>io\<close>: it may
  publish, draw UUIDs, return an error, panic or never return. The type parameter \<open>T\<close> of the
  generic functions is described by a \<open>gotype\<close>: its name, whether it is an interface type, and what
  a type assertion and \<open>json.Unmarshal\<close> do for it.
\<close>

record unmarshalEvent =
  Metadata :: metadata
  DeliveryInfo :: deliveryInfo
  Payload :: string

record 'a consumableEvent =
  evMetadata :: metadata
  evDeliveryInfo :: deliveryInfo
  evPayload :: 'a

type_synonym 'a eventHandler = "ctx \<Rightarrow> 'a consumableEvent \<Rightarrow> (io, unit) M"

type_synonym wrappedHandler = "ctx \<Rightarrow> unmarshalEvent \<Rightarrow> (io, unit) M"

record 'a gotype =
  typeName :: string
  isInterface :: bool
  assertRaw :: "string \<Rightarrow> 'a option"
  unmarshal :: "string \<Rightarrow> string + 'a"

definition typeAssertion :: string where
  "typeAssertion = ''interface conversion''"

text \<open>\<open>fmt.Errorf("%v: %w", err, spec.ErrParseJSON)\<close>\<close>

definition parseError :: "string \<Rightarrow> goerr" where
  "parseError text = ErrWrap (text @ '': '') ErrParseJSON"

definition newWrappedHandler :: "'a gotype \<Rightarrow> 'a eventHandler \<Rightarrow> wrappedHandler" where
  "newWrappedHandler T handler =
     (if isInterface T \<or> typeName T = ''json.RawMessage'' then
        (\<lambda>c event.
           case assertRaw T (Payload event) of
             None \<Rightarrow> panicM typeAssertion
           | Some v \<Rightarrow> handler c \<lparr>evMetadata = Metadata event, evDeliveryInfo = DeliveryInfo event,
               evPayload = v\<rparr>)
      else
        (\<lambda>c event.
           case unmarshal T (Payload event) of
             Inl text \<Rightarrow> failM (parseError text)
           | Inr v \<Rightarrow> handler c \<lparr>evMetadata = Metadata event, evDeliveryInfo = DeliveryInfo event,
               evPayload = v\<rparr>))"


text \<open>The payload type \<open>json.RawMessage\<close>: the body as it is.\<close>

definition rawMessageType :: "string gotype" where
  "rawMessageType = \<lparr>typeName = ''json.RawMessage'', isInterface = False, assertRaw = Some, unmarshal = Inr\<rparr>"

lemma newWrappedHandler_raw:
  "newWrappedHandler rawMessageType handler c event =
     handler c \<lparr>evMetadata = Metadata event, evDeliveryInfo = DeliveryInfo event, evPayload = Payload event\<rparr>"
  by (simp add: newWrappedHandler_def rawMessageType_def)


subsection \<open>TypeMappingHandler\<close>

text \<open>
  Values of the payload type \<open>any\<close>: the raw message, or a value of a mapped type. A
  \<open>reflect.Type\<close> is described by whether \<open>Elem()\<close> is defined for it (it panics for types other
  than arrays, channels, maps, pointers and slices) and by decoding into a new element.
\<close>

datatype 'v anyval = RawMessage string | Value 'v

record 'v reflectType =
  hasElem :: bool
  decode :: "string \<Rightarrow> string + 'v"

type_synonym 'v typeMapper = "string \<Rightarrow> 'v reflectType option"

definition TypeMappingHandler ::
  "'v anyval eventHandler \<Rightarrow> 'v typeMapper option \<Rightarrow> 'v anyval eventHandler" where
  "TypeMappingHandler handler routingKeyToType c event =
     (case routingKeyToType of
        None \<Rightarrow> failM (ErrText ''TypeMapper is nil'')
      | Some mapper \<Rightarrow>
          (case mapper (Key (evDeliveryInfo event)) of
             None \<Rightarrow> failM ErrNoMessageTypeForRouteKey
           | Some typ \<Rightarrow>
               if \<not> hasElem typ then panicM ''reflect: Elem of invalid type''
               else (case evPayload event of
                       Value v \<Rightarrow> panicM typeAssertion
                     | RawMessage raw \<Rightarrow>
                         (case decode typ raw of
                            Inl text \<Rightarrow> failM (parseError text)
                          | Inr v \<Rightarrow> handler c (event\<lparr>evPayload := Value v\<rparr>)))))"

text \<open>The type \<open>any\<close>: the payload arrives as \<open>json.RawMessage\<close>.\<close>

definition anyType :: "'v anyval gotype" where
  "anyType = \<lparr>typeName = ''interface {}'', isInterface = True, assertRaw = (\<lambda>raw. Some (RawMessage raw)),
     unmarshal = (\<lambda>raw. Inr (RawMessage raw))\<rparr>"

lemma errors_Is_parseError [simp]:
  "errors_Is (parseError text) ErrParseJSON"
  "\<not> errors_Is (parseError text) ErrNoMessageTypeForRouteKey"
  by (simp_all add: parseError_def)



text \<open>
  A mapper that returns a type without \<open>Elem\<close>, such as a struct type, makes every delivery on
  that key panic.
\<close>

lemma TypeMappingHandler_struct_type_panics:
  assumes "mapper (Key (DeliveryInfo ev)) = Some typ" and "\<not> hasElem typ"
  shows "newWrappedHandler anyType (TypeMappingHandler handler (Some mapper)) c ev s =
    (Panic ''reflect: Elem of invalid type'', s)"
  using assms by (simp add: newWrappedHandler_def anyType_def TypeMappingHandler_def run_simps)

end
