(* ===== verification/Routing_Handlers.thy ===== *)
theory Routing_Handlers
  imports Handler_Model
begin

text \<open>
  The registry of handlers: \<open>routingKeyHandler\<close> (\<open>routingkey_handlers.go\<close>), a Go map from
  binding patterns to handlers, and \<open>queueConsumers\<close> with \<open>queueConsumer\<close> (\<open>consumer.go\<close>), a map
  from queue names to consumers. The list order of these maps is the order in which one \<open>range\<close> loop
  visits them.

  The locale \<open>handler_table\<close> is what the rest of the program relies on: a lookup finds the
  handlers whose pattern matches, there is never more than one, and a successful registration
  adds one binding and changes no other lookup. It is interpreted on the handlers of one queue
  and on all queues.
\<close>

type_synonym 'h routingKeyHandler = "(string, 'h) gomap"

fun rkh_get :: "lib \<Rightarrow> 'h routingKeyHandler \<Rightarrow> string \<Rightarrow> 'h option" where
  "rkh_get L [] routingKey = None"
| "rkh_get L ((mapped, handler) # h) routingKey =
     (if MatchRoutingKey L mapped routingKey then Some handler else rkh_get L h routingKey)"

fun rkh_exists :: "lib \<Rightarrow> 'h routingKeyHandler \<Rightarrow> string \<Rightarrow> string option" where
  "rkh_exists L [] routingKey = None"
| "rkh_exists L ((mapped, handler) # h) routingKey =
     (if RoutingKeyOverlaps L routingKey mapped then Some mapped else rkh_exists L h routingKey)"

definition rkh_add :: "'h routingKeyHandler \<Rightarrow> string \<Rightarrow> 'h \<Rightarrow> 'h routingKeyHandler" where
  "rkh_add h routingKey handler = AList.update routingKey handler h"

record queueConsumer =
  queue :: string
  qcServiceName :: string
  handlers :: "wrappedHandler routingKeyHandler"
  qcNotificationCh :: "nat option"
  qcErrorCh :: "nat option"
  qcSpanNameFn :: "(deliveryInfo \<Rightarrow> string) option"
  qcLogger :: "logger option"
  qcTracer :: "tracer option"
  qcPropagator :: "propagator option"
  qcLegacySupport :: bool

record queueConsumers =
  consumers :: "(string, queueConsumer) gomap"
  qcsSpanNameFn :: "(deliveryInfo \<Rightarrow> string) option"

definition newQueueConsumer :: "string \<Rightarrow> (deliveryInfo \<Rightarrow> string) option \<Rightarrow> queueConsumer" where
  "newQueueConsumer q f = \<lparr>queue = q, qcServiceName = [], handlers = [], qcNotificationCh = None,
     qcErrorCh = None, qcSpanNameFn = f, qcLogger = None, qcTracer = None, qcPropagator = None, qcLegacySupport = False\<rparr>"

definition queueConsumers_get :: "lib \<Rightarrow> queueConsumers \<Rightarrow> string \<Rightarrow> string \<Rightarrow> wrappedHandler option" where
  "queueConsumers_get L c queueName routingKey =
     (case map_of (consumers c) queueName of
        None \<Rightarrow> None
      | Some consumerForQueue \<Rightarrow> rkh_get L (handlers consumerForQueue) routingKey)"

definition overlapError :: "string \<Rightarrow> string \<Rightarrow> string \<Rightarrow> goerr" where
  "overlapError routingKey mapped queueName = ErrText (''routingkey '' @ routingKey @ '' overlaps '' @ mapped
     @ '' for queue '' @ queueName @ '', consider using AddQueueNameSuffix'')"

text \<open>
  \<open>queueConsumers.add\<close>: the error, if any, and the registry afterwards (a consumer created for a
  new queue is in the map before the overlap check).
\<close>

definition queueConsumers_add ::
  "lib \<Rightarrow> queueConsumers \<Rightarrow> string \<Rightarrow> string \<Rightarrow> wrappedHandler \<Rightarrow> goerr option \<times> queueConsumers" where
  "queueConsumers_add L c queueName routingKey handler =
     (let c' = (case map_of (consumers c) queueName of
                  Some _ \<Rightarrow> c
                | None \<Rightarrow> c\<lparr>consumers := AList.update queueName (newQueueConsumer queueName (qcsSpanNameFn c))
                    (consumers c)\<rparr>);
          consumerForQueue = (case map_of (consumers c) queueName of
                  Some qc \<Rightarrow> qc
                | None \<Rightarrow> newQueueConsumer queueName (qcsSpanNameFn c))
      in case rkh_exists L (handlers consumerForQueue) routingKey of
           Some mapped \<Rightarrow> (Some (overlapError routingKey mapped queueName), c')
         | None \<Rightarrow> (None, c'\<lparr>consumers := AList.update queueName
             (consumerForQueue\<lparr>handlers := rkh_add (handlers consumerForQueue) routingKey handler\<rparr>)
             (consumers c')\<rparr>))"


subsection \<open>The contract\<close>

text \<open>
  Hypothesis on the functions of \<open>spec\<close>: a pattern overlaps itself, and if two patterns match
  one routing key, then they overlap.
\<close>

definition overlap_sound :: "lib \<Rightarrow> bool" where
  "overlap_sound L \<longleftrightarrow> (\<forall>p. RoutingKeyOverlaps L p p) \<and>
     (\<forall>p q k. MatchRoutingKey L p k \<and> MatchRoutingKey L q k \<longrightarrow> RoutingKeyOverlaps L p q)"

lemma demoLib_overlap [simp]: "overlap_sound demoLib"
proof -
  have "topicOverlap p p" for p by (induction p) auto
  then show ?thesis by (auto simp: overlap_sound_def intro: topicOverlap_if_common_match)
qed

locale handler_table =
  fixes lookup :: "'t \<Rightarrow> 'k \<Rightarrow> 'h option" and register :: "'t \<Rightarrow> 'p \<Rightarrow> 'h \<Rightarrow> goerr option \<times> 't"
    and covers :: "'p \<Rightarrow> 'k \<Rightarrow> bool" and bindings :: "'t \<Rightarrow> ('p \<times> 'h) set" and wf :: "'t \<Rightarrow> bool"
  assumes lookup_iff: "wf t \<Longrightarrow> lookup t k = Some h \<longleftrightarrow> (\<exists>p. (p, h) \<in> bindings t \<and> covers p k)"
    and register_ok: "wf t \<Longrightarrow> register t p h = (None, t') \<Longrightarrow>
      wf t' \<and> bindings t' = insert (p, h) (bindings t)"
    and register_refused: "wf t \<Longrightarrow> register t p h = (Some e, t') \<Longrightarrow>
      wf t' \<and> bindings t' = bindings t"
begin

lemma lookup_None: "wf t \<Longrightarrow> lookup t k = None \<longleftrightarrow> (\<forall>p h. (p, h) \<in> bindings t \<longrightarrow> \<not> covers p k)"
  by (metis lookup_iff not_None_eq)

lemma lookup_registered: "wf t \<Longrightarrow> register t p h = (None, t') \<Longrightarrow> covers p k \<Longrightarrow> lookup t' k = Some h"
  using register_ok lookup_iff by blast

lemma lookup_keeps_registered:
  "wf t \<Longrightarrow> register t p h = (None, t') \<Longrightarrow> lookup t k = Some h' \<Longrightarrow> lookup t' k = Some h'"
  using register_ok lookup_iff by blast

lemma lookup_other:
  assumes "wf t" and "register t p h = (None, t')" and "\<not> covers p k"
  shows "lookup t' k = lookup t k"
proof (cases "lookup t k")
  case None
  then have "\<forall>q g. (q, g) \<in> bindings t' \<longrightarrow> \<not> covers q k"
    using assms lookup_None [OF assms(1)] register_ok [OF assms(1,2)] by auto
  then show ?thesis
    using None lookup_None register_ok [OF assms(1,2)] by auto
qed (use assms lookup_keeps_registered in metis)

lemma lookup_refused: "wf t \<Longrightarrow> register t p h = (Some e, t') \<Longrightarrow> lookup t' k = lookup t k"
  by (metis lookup_iff lookup_None register_refused option.exhaust)

end


subsection \<open>The handlers of one queue\<close>

text \<open>No two patterns of the map match one routing key.\<close>

definition unambiguous :: "lib \<Rightarrow> 'h routingKeyHandler \<Rightarrow> bool" where
  "unambiguous L h \<longleftrightarrow> gomap_ok h \<and>
     (\<forall>p g q g'. (p, g) \<in> set h \<and> (q, g') \<in> set h \<and> p \<noteq> q \<longrightarrow>
        (\<forall>k. \<not> (MatchRoutingKey L p k \<and> MatchRoutingKey L q k)))"

definition rkh_register :: "lib \<Rightarrow> 'h routingKeyHandler \<Rightarrow> string \<Rightarrow> 'h \<Rightarrow> goerr option \<times> 'h routingKeyHandler" where
  "rkh_register L h routingKey handler =
     (case rkh_exists L h routingKey of
        Some mapped \<Rightarrow> (Some (overlapError routingKey mapped []), h)
      | None \<Rightarrow> (None, rkh_add h routingKey handler))"

lemma rkh_exists_None:
  "rkh_exists L h k = None \<longleftrightarrow> (\<forall>p g. (p, g) \<in> set h \<longrightarrow> \<not> RoutingKeyOverlaps L k p)"
  by (induction h) (auto split: if_splits)

lemma rkh_get_member: "rkh_get L h k = Some g \<Longrightarrow> \<exists>p. (p, g) \<in> set h \<and> MatchRoutingKey L p k"
  by (induction h) (auto split: if_splits)

lemma rkh_get_None: "rkh_get L h k = None \<longleftrightarrow> (\<forall>p g. (p, g) \<in> set h \<longrightarrow> \<not> MatchRoutingKey L p k)"
  by (induction h) (auto split: if_splits)

lemma rkh_get_iff:
  assumes "unambiguous L h"
  shows "rkh_get L h k = Some g \<longleftrightarrow> (\<exists>p. (p, g) \<in> set h \<and> MatchRoutingKey L p k)"
proof
  assume "\<exists>p. (p, g) \<in> set h \<and> MatchRoutingKey L p k"
  then obtain p where p: "(p, g) \<in> set h" "MatchRoutingKey L p k" by blast
  then obtain g' where g': "rkh_get L h k = Some g'" using rkh_get_None [of L h k] by auto
  then obtain q where q: "(q, g') \<in> set h" "MatchRoutingKey L q k" using rkh_get_member by fast
  with p assms have "p = q" by (auto simp: unambiguous_def)
  with p q assms have "g = g'" by (auto simp: unambiguous_def gomap_ok_def dest: eq_key_imp_eq_value)
  with g' show "rkh_get L h k = Some g" by simp
qed (rule rkh_get_member)

lemma rkh_add_ok:
  assumes "overlap_sound L" and "unambiguous L h" and "rkh_exists L h p = None"
  shows "unambiguous L (rkh_add h p g) \<and> set (rkh_add h p g) = insert (p, g) (set h)"
proof -
  have free: "\<not> (MatchRoutingKey L p k \<and> MatchRoutingKey L q k)" if "(q, g') \<in> set h" for q g' k
    using assms(1,3) that unfolding rkh_exists_None overlap_sound_def by blast
  have "p \<notin> set (gokeys h)"
    using assms(1,3) by (auto simp: rkh_exists_None overlap_sound_def)
  then have "set (rkh_add h p g) = insert (p, g) (set h)"
    by (simp add: rkh_add_def update_new)
  moreover from this assms(2) free have "unambiguous L (rkh_add h p g)"
    unfolding unambiguous_def by (simp add: rkh_add_def) blast
  ultimately show ?thesis by simp
qed

interpretation rkh: handler_table "rkh_get L" "rkh_register L" "MatchRoutingKey L" set
  "\<lambda>h. overlap_sound L \<and> unambiguous L h" for L :: lib
proof (unfold_locales, goal_cases)
  case (1 t k h)
  then show ?case by (simp add: rkh_get_iff)
next
  case (2 t p h t')
  then show ?case using rkh_add_ok [of L t p h] by (auto simp: rkh_register_def split: option.splits)
next
  case (3 t p h e t')
  then show ?case by (auto simp: rkh_register_def split: option.splits)
qed


subsection \<open>The handlers of all queues\<close>

definition qcs_ok :: "lib \<Rightarrow> queueConsumers \<Rightarrow> bool" where
  "qcs_ok L c \<longleftrightarrow> gomap_ok (consumers c) \<and>
     (\<forall>q qc. map_of (consumers c) q = Some qc \<longrightarrow> queue qc = q \<and> unambiguous L (handlers qc))"

definition qcs_bindings :: "queueConsumers \<Rightarrow> ((string \<times> string) \<times> wrappedHandler) set" where
  "qcs_bindings c = {((q, p), h). \<exists>qc. map_of (consumers c) q = Some qc \<and> (p, h) \<in> set (handlers qc)}"

definition qcs_covers :: "lib \<Rightarrow> string \<times> string \<Rightarrow> string \<times> string \<Rightarrow> bool" where
  "qcs_covers L p k \<longleftrightarrow> fst p = fst k \<and> MatchRoutingKey L (snd p) (snd k)"

lemma unambiguous_Nil [simp]: "unambiguous L []"
  by (simp add: unambiguous_def)

lemma newQueueConsumer_simps [simp]:
  "handlers (newQueueConsumer q f) = []" "queue (newQueueConsumer q f) = q"
  by (simp_all add: newQueueConsumer_def)

lemma queueConsumers_add_ok:
  assumes "overlap_sound L" and "qcs_ok L c" and "queueConsumers_add L c q p h = (None, c')"
  shows "qcs_ok L c' \<and> qcs_bindings c' = insert ((q, p), h) (qcs_bindings c)"
proof -
  define qc where "qc = (case map_of (consumers c) q of Some qc \<Rightarrow> qc | None \<Rightarrow> newQueueConsumer q (qcsSpanNameFn c))"
  have qc: "queue qc = q" "unambiguous L (handlers qc)"
    using assms(2) by (auto simp: qc_def qcs_ok_def split: option.split)
  have no: "rkh_exists L (handlers qc) p = None"
    using assms(3) by (auto simp: queueConsumers_add_def Let_def simp flip: qc_def split: option.splits)
  have add: "unambiguous L (rkh_add (handlers qc) p h)" "set (rkh_add (handlers qc) p h) = insert (p, h) (set (handlers qc))"
    using rkh_add_ok [OF assms(1) qc(2) no] by simp_all
  have c': "map_of (consumers c') = (map_of (consumers c))(q \<mapsto> qc\<lparr>handlers := rkh_add (handlers qc) p h\<rparr>)"
    "gomap_ok (consumers c')"
    using assms(2,3) no by (auto simp: queueConsumers_add_def Let_def qcs_ok_def simp flip: qc_def split: option.splits)
  have old: "(r, g) \<in> set (handlers qc) \<longleftrightarrow> ((q, r), g) \<in> qcs_bindings c" for r g
    by (auto simp: qcs_bindings_def qc_def split: option.splits)
  show ?thesis
  proof
    show "qcs_ok L c'" using assms(2) c' add(1) qc(1) by (simp add: qcs_ok_def)
    show "qcs_bindings c' = insert ((q, p), h) (qcs_bindings c)"
    proof (rule set_eqI, clarify)
      fix q' r g
      show "((q', r), g) \<in> qcs_bindings c' \<longleftrightarrow> ((q', r), g) \<in> insert ((q, p), h) (qcs_bindings c)"
        using old [of r g] by (cases "q' = q") (auto simp: qcs_bindings_def c' add(2))
    qed
  qed
qed

lemma queueConsumers_add_refused:
  assumes "qcs_ok L c" and "queueConsumers_add L c q p h = (Some e, c')"
  shows "qcs_ok L c' \<and> qcs_bindings c' = qcs_bindings c"
proof (cases "map_of (consumers c) q")
  case None
  with assms show ?thesis
    by (auto simp: queueConsumers_add_def Let_def qcs_ok_def qcs_bindings_def)
next
  case (Some qc)
  with assms show ?thesis
    by (auto simp: queueConsumers_add_def Let_def split: option.splits)
qed

lemma queueConsumers_get_iff:
  assumes "qcs_ok L c"
  shows "queueConsumers_get L c q k = Some h \<longleftrightarrow>
    (\<exists>p. ((q, p), h) \<in> qcs_bindings c \<and> MatchRoutingKey L p k)"
proof (cases "map_of (consumers c) q")
  case None
  then show ?thesis by (auto simp: queueConsumers_get_def qcs_bindings_def)
next
  case (Some qc)
  with assms have "unambiguous L (handlers qc)" by (auto simp: qcs_ok_def)
  with Some show ?thesis by (auto simp: queueConsumers_get_def qcs_bindings_def rkh_get_iff)
qed

interpretation qcs: handler_table "\<lambda>c k. queueConsumers_get L c (fst k) (snd k)"
  "\<lambda>c p. queueConsumers_add L c (fst p) (snd p)" "qcs_covers L" qcs_bindings
  "\<lambda>c. overlap_sound L \<and> qcs_ok L c" for L :: lib
proof (unfold_locales, goal_cases)
  case (1 t k h)
  then show ?case by (auto simp: queueConsumers_get_iff qcs_covers_def)
next
  case (2 t p h t')
  then show ?case using queueConsumers_add_ok [of L t "fst p" "snd p" h t'] by simp
next
  case (3 t p h e t')
  then show ?case using queueConsumers_add_refused [of L t "fst p" "snd p" h e t'] by simp
qed

text \<open>
  C15: which handler a routing key reaches does not depend on the order in which Go visits
  the map of handlers: for the handlers of a queue no two of which overlap, \<open>get\<close> gives the
  handler of the one pattern that matches, in every visiting order.
\<close>

theorem rkh_get_any_order:
  assumes "unambiguous L h" and "same_map h h'"
  shows "rkh_get L h k = rkh_get L h' k
    \<and> (rkh_get L h k = Some g \<longleftrightarrow> (\<exists>p. map_of h p = Some g \<and> MatchRoutingKey L p k))"
proof -
  have "unambiguous L h'"
    using assms same_map_set [OF assms(2)] unfolding unambiguous_def same_map_def by metis
  then have "rkh_get L h k = Some g \<longleftrightarrow> rkh_get L h' k = Some g" for g
    using assms same_map_set [OF assms(2)] by (simp add: rkh_get_iff)
  then have "rkh_get L h k = rkh_get L h' k" by (metis option.exhaust)
  moreover have "(p, g) \<in> set h \<longleftrightarrow> map_of h p = Some g" for p
    using assms(2) by (simp add: same_map_def gomap_mem)
  ultimately show ?thesis using rkh_get_iff [OF assms(1), of k g] by simp
qed

theorem rkh_get_any_order_witness:
  "rkh_get demoLib [(''a.#'', True), (''b.*'', False)] ''b.x'' = rkh_get demoLib [(''b.*'', False), (''a.#'', True)] ''b.x''"
proof -
  have h: "same_map [(''a.#'', True), (''b.*'', False)] [(''b.*'', False), (''a.#'', True)]"
    by (auto simp: same_map_def gomap_ok_def fun_eq_iff)
  have "unambiguous demoLib (rkh_add (rkh_add [] ''a.#'' True) ''b.*'' False)"
    by (intro rkh_add_ok [THEN conjunct1]) (simp_all add: rkh_add_def)
  then have "unambiguous demoLib [(''a.#'', True), (''b.*'', False)]" by (simp add: rkh_add_def)
  from rkh_get_any_order [OF this h] show ?thesis by blast
qed

text \<open>
  C16: registering a handler. If \<open>queueConsumers.add\<close> returns nil, then every routing key the
  pattern matches on that queue reaches the new handler, all other lookups are as before, and a
  handler registered earlier is never displaced; if it returns an error, every lookup is as before.
  Either way the registry stays free of overlapping patterns.
\<close>

theorem queueConsumers_add_correct:
  assumes "overlap_sound L" and "qcs_ok L c" and "queueConsumers_add L c q p h = (err, c')"
  shows "qcs_ok L c'
    \<and> (err = None \<longrightarrow> (\<forall>k. MatchRoutingKey L p k \<longrightarrow>
          queueConsumers_get L c q k = None \<and> queueConsumers_get L c' q k = Some h)
        \<and> (\<forall>q' k. q' \<noteq> q \<or> \<not> MatchRoutingKey L p k \<longrightarrow>
          queueConsumers_get L c' q' k = queueConsumers_get L c q' k))
    \<and> (err \<noteq> None \<longrightarrow> (\<forall>q' k. queueConsumers_get L c' q' k = queueConsumers_get L c q' k))"
proof (cases err)
  case None
  have ok: "overlap_sound L \<and> qcs_ok L c" using assms by simp
  have reg: "queueConsumers_add L c (fst (q, p)) (snd (q, p)) h = (None, c')" using assms(3) None by simp
  have fresh: "queueConsumers_get L c q k = None" if "MatchRoutingKey L p k" for k
  proof (rule ccontr)
    assume "queueConsumers_get L c q k \<noteq> None"
    then obtain qc g where qc: "map_of (consumers c) q = Some qc" "rkh_get L (handlers qc) k = Some g"
      by (auto simp: queueConsumers_get_def split: option.splits)
    then obtain r where "(r, g) \<in> set (handlers qc)" "MatchRoutingKey L r k" using rkh_get_member by fast
    with that assms(1) have "RoutingKeyOverlaps L p r" "(r, g) \<in> set (handlers qc)" by (auto simp: overlap_sound_def)
    then have "rkh_exists L (handlers qc) p \<noteq> None" by (auto simp: rkh_exists_None)
    with qc(1) assms(3) None show False by (auto simp: queueConsumers_add_def Let_def split: option.splits)
  qed
  show ?thesis
    using None fresh queueConsumers_add_ok [OF assms(1,2)] assms(3)
      qcs.lookup_registered [OF ok reg, of "(q, k)" for k] qcs.lookup_other [OF ok reg, of "(q', k)" for q' k]
    by (auto simp: qcs_covers_def)
next
  case (Some e)
  with assms qcs.lookup_refused [of L c "(q, p)" h e c' "(q', k)" for q' k] queueConsumers_add_refused [of L c q p h e c']
  show ?thesis by auto
qed

theorem queueConsumers_add_correct_witness:
  "queueConsumers_get demoLib (snd (queueConsumers_add demoLib \<lparr>consumers = [], qcsSpanNameFn = None\<rparr> ''q'' ''a.*'' (\<lambda>_ _. returnM ()))) ''q'' ''a.b''
     = Some (\<lambda>_ _. returnM ())"
proof -
  let ?c = "\<lparr>consumers = [], qcsSpanNameFn = None\<rparr> :: queueConsumers"
  have ok: "qcs_ok demoLib ?c" by (simp add: qcs_ok_def)
  let ?run = "queueConsumers_add demoLib ?c ''q'' ''a.*'' (\<lambda>_ _. returnM ())"
  have "fst ?run = None" by (simp add: queueConsumers_add_def Let_def)
  with queueConsumers_add_correct [OF demoLib_overlap ok surjective_pairing, of "''q''" "''a.*''" "\<lambda>_ _. returnM ()"]
  show ?thesis by simp
qed

text \<open>Every consumer has a function that names its spans, and so will every new one.\<close>

definition named :: "queueConsumers \<Rightarrow> bool" where
  "named c \<longleftrightarrow> qcsSpanNameFn c \<noteq> None \<and> (\<forall>q qc. map_of (consumers c) q = Some qc \<longrightarrow> qcSpanNameFn qc \<noteq> None)"

lemma named_add: "named c \<Longrightarrow> queueConsumers_add L c q p h = (err, c') \<Longrightarrow> named c'"
  by (auto simp: named_def queueConsumers_add_def newQueueConsumer_def Let_def split: option.splits if_splits)

end
