(* ===== verification/Channel.thy ===== *)
theory Channel
  imports Runtime
begin

text \<open>
  The interfaces \<open>amqpChannel\<close> (\<open>channel.go\<close>) and \<open>amqpConnection\<close> (\<open>connection.go\<close>) with
  their two implementations: channels and connections of the AMQP library, whose calls are
  recorded and answered by the environment, and the no-op ones of \<open>topology_export.go\<close>, which
  succeed without a trace. A method call on a nil interface value panics.

  The locale \<open>channel_source\<close> is the contract the setup code relies on when it opens a channel:
  the channel is new, and nothing but the bookkeeping of channels and calls changes. Both
  implementations are interpreted.
\<close>

definition nilDereference :: string where
  "nilDereference = ''invalid memory address or nil pointer dereference''"

definition onChannel :: "amqpChannel option \<Rightarrow> (nat \<Rightarrow> (io, unit) M) \<Rightarrow> (io, unit) M" where
  "onChannel ch f =
     (case ch of
        None \<Rightarrow> panicM nilDereference
      | Some NoopChannel \<Rightarrow> returnM ()
      | Some (AmqpChannel n) \<Rightarrow> f n)"

definition chClose :: "lib \<Rightarrow> amqpChannel option \<Rightarrow> (io, unit) M" where
  "chClose L ch = onChannel ch (\<lambda>n. invoke L (CloseChannel n))"

definition chQueueBind ::
  "lib \<Rightarrow> amqpChannel option \<Rightarrow> string \<Rightarrow> string \<Rightarrow> string \<Rightarrow> bool \<Rightarrow> table \<Rightarrow> (io, unit) M" where
  "chQueueBind L ch queue key exch noWait args =
     onChannel ch (\<lambda>n. invoke L (QueueBind n queue key exch noWait args))"

definition chConsume ::
  "lib \<Rightarrow> amqpChannel option \<Rightarrow> string \<Rightarrow> string \<Rightarrow> bool \<Rightarrow> bool \<Rightarrow> bool \<Rightarrow> bool \<Rightarrow> table option
     \<Rightarrow> (io, unit) M" where
  "chConsume L ch queue consumer autoAck exclusive noLocal noWait args =
     onChannel ch (\<lambda>n. invoke L (Consume n queue consumer autoAck exclusive noLocal noWait args))"

definition chExchangeDeclare ::
  "lib \<Rightarrow> amqpChannel option \<Rightarrow> string \<Rightarrow> string \<Rightarrow> bool \<Rightarrow> bool \<Rightarrow> bool \<Rightarrow> bool \<Rightarrow> table option
     \<Rightarrow> (io, unit) M" where
  "chExchangeDeclare L ch name kind durable autoDelete internal noWait args =
     onChannel ch (\<lambda>n. invoke L (ExchangeDeclare n name kind durable autoDelete internal noWait args))"

definition chPublishWithContext ::
  "lib \<Rightarrow> amqpChannel option \<Rightarrow> ctx \<Rightarrow> string \<Rightarrow> string \<Rightarrow> bool \<Rightarrow> bool \<Rightarrow> publishing \<Rightarrow> (io, unit) M"
  where
  "chPublishWithContext L ch c exch key mandatory immediate msg =
     onChannel ch (\<lambda>n. invoke L (PublishWithContext n c exch key mandatory immediate msg))"

definition chQueueDeclare ::
  "lib \<Rightarrow> amqpChannel option \<Rightarrow> string \<Rightarrow> bool \<Rightarrow> bool \<Rightarrow> bool \<Rightarrow> bool \<Rightarrow> table \<Rightarrow> (io, unit) M" where
  "chQueueDeclare L ch name durable autoDelete exclusive noWait args =
     onChannel ch (\<lambda>n. invoke L (QueueDeclare n name durable autoDelete exclusive noWait args))"

definition chNotifyPublish :: "lib \<Rightarrow> amqpChannel option \<Rightarrow> nat \<Rightarrow> (io, unit) M" where
  "chNotifyPublish L ch q = onChannel ch (\<lambda>n. recordCall (NotifyPublish n q))"

definition chConfirm :: "lib \<Rightarrow> amqpChannel option \<Rightarrow> bool \<Rightarrow> (io, unit) M" where
  "chConfirm L ch noWait = onChannel ch (\<lambda>n. invoke L (Confirm n noWait))"

definition chQos :: "lib \<Rightarrow> amqpChannel option \<Rightarrow> int \<Rightarrow> int \<Rightarrow> bool \<Rightarrow> (io, unit) M" where
  "chQos L ch prefetchCount prefetchSize global =
     onChannel ch (\<lambda>n. invoke L (Qos n prefetchCount prefetchSize global))"

definition chNotifyClose :: "lib \<Rightarrow> amqpChannel option \<Rightarrow> (io, unit) M" where
  "chNotifyClose L ch = onChannel ch (\<lambda>n. recordCall (NotifyChannelClose n))"

text \<open>\<open>amqp.Connection.Channel()\<close>: the library numbers its channels as it opens them.\<close>

definition openChannel :: "lib \<Rightarrow> (io, nat) M" where
  "openChannel L =
     bindM (getM nextChan) (\<lambda>n.
     thenM (invoke L (OpenChannel n))
     (thenM (putM (\<lambda>s. s\<lparr>nextChan := Suc n\<rparr>)) (returnM n)))"

text \<open>\<open>amqpConn.channel\<close>\<close>

definition amqpConn_channel :: "lib \<Rightarrow> int \<Rightarrow> nat option \<Rightarrow> (io, amqpChannel) M" where
  "amqpConn_channel L prefetch listener =
     bindM (openChannel L) (\<lambda>n. let ch = AmqpChannel n in
     thenM (wrapM ''error setting qos: '' (chQos L (Some ch) prefetch 0 False))
     (thenM (chNotifyClose L (Some ch))
     (thenM (case listener of
               None \<Rightarrow> returnM ()
             | Some l \<Rightarrow> putM (\<lambda>s. s\<lparr>forwarders := forwarders s @ [FwdChannel n l]\<rparr>))
     (returnM ch))))"

definition noopConnection_channel :: "(io, amqpChannel) M" where
  "noopConnection_channel = returnM NoopChannel"

definition connChannel :: "lib \<Rightarrow> amqpConnection option \<Rightarrow> (io, amqpChannel) M" where
  "connChannel L conn =
     (case conn of
        None \<Rightarrow> panicM nilDereference
      | Some NoopConnection \<Rightarrow> noopConnection_channel
      | Some (AmqpConn prefetch listener) \<Rightarrow> amqpConn_channel L prefetch listener)"

definition connClose :: "lib \<Rightarrow> amqpConnection option \<Rightarrow> (io, unit) M" where
  "connClose L conn =
     (case conn of
        None \<Rightarrow> panicM nilDereference
      | Some NoopConnection \<Rightarrow> returnM ()
      | Some (AmqpConn prefetch listener) \<Rightarrow> invoke L CloseConnection)"

text \<open>
  What a close event does: \<open>forwardClose\<close> is the body of the forwarding goroutines, the
  errors sent to each listener for a close event on a channel or on the connection whose
  listener is given (a send on a nil channel is never received).
\<close>

datatype closeEvent = ChannelClosed nat string | ConnectionClosed string

fun forwardClose1 :: "nat option \<Rightarrow> closeEvent \<Rightarrow> forwarder \<Rightarrow> (nat \<times> goerr) list" where
  "forwardClose1 listener (ChannelClosed n ev) (FwdChannel m l) = (if n = m then [(l, ErrText ev)] else [])"
| "forwardClose1 listener (ConnectionClosed ev) FwdConnection =
     (case listener of None \<Rightarrow> [] | Some l \<Rightarrow> [(l, ErrText (''connection closed: '' @ ev))])"
| "forwardClose1 _ _ _ = []"

definition forwardClose :: "nat option \<Rightarrow> closeEvent \<Rightarrow> forwarder list \<Rightarrow> (nat \<times> goerr) list" where
  "forwardClose listener ev fs = concat (map (forwardClose1 listener ev) fs)"

lemmas channel_op_defs =
  chClose_def chQueueBind_def chConsume_def chExchangeDeclare_def chPublishWithContext_def
  chQueueDeclare_def chNotifyPublish_def chConfirm_def chQos_def chNotifyClose_def

lemma onChannel_simps [simp]:
  "onChannel None f = panicM nilDereference"
  "onChannel (Some NoopChannel) f = returnM ()"
  "onChannel (Some (AmqpChannel n)) f = f n"
  by (simp_all add: onChannel_def)

lemma noop_channel_succeeds:
  "chClose L (Some NoopChannel) = returnM ()"
  "chQueueBind L (Some NoopChannel) q k e w t = returnM ()"
  "chConsume L (Some NoopChannel) q k b1 b2 b3 b4 ot = returnM ()"
  "chExchangeDeclare L (Some NoopChannel) q k b1 b2 b3 b4 ot = returnM ()"
  "chPublishWithContext L (Some NoopChannel) c e k b1 b2 p = returnM ()"
  "chQueueDeclare L (Some NoopChannel) q b1 b2 b3 b4 t = returnM ()"
  "chNotifyPublish L (Some NoopChannel) i = returnM ()"
  "chConfirm L (Some NoopChannel) b1 = returnM ()"
  "chQos L (Some NoopChannel) i1 i2 b1 = returnM ()"
  "chNotifyClose L (Some NoopChannel) = returnM ()"
  by (simp_all add: channel_op_defs)


subsection \<open>Opening channels\<close>

text \<open>
  What one open may change: the numbering of channels, the forwarders and the calls; the calls are
  those of the opening itself.
\<close>

text \<open>The connection was dialled with this prefetch limit, with this close listener.\<close>

definition dialled :: "amqpConnection option \<Rightarrow> int \<Rightarrow> bool" where
  "dialled conn a \<longleftrightarrow> (\<exists>cl. conn = Some (AmqpConn a cl))"

definition listens :: "amqpConnection option \<Rightarrow> nat \<Rightarrow> bool" where
  "listens conn l \<longleftrightarrow> (\<exists>a. conn = Some (AmqpConn a (Some l)))"

fun openCall :: "amqpConnection option \<Rightarrow> amqpCall \<Rightarrow> bool" where
  "openCall conn (OpenChannel n) = True"
| "openCall conn (NotifyChannelClose n) = True"
| "openCall conn (Qos n a b g) = dialled conn a"
| "openCall conn c = False"

fun fwdOf :: "amqpConnection option \<Rightarrow> forwarder \<Rightarrow> bool" where
  "fwdOf conn (FwdChannel n l) = listens conn l"
| "fwdOf conn f = False"

definition openEffect :: "amqpConnection option \<Rightarrow> io \<Rightarrow> io \<Rightarrow> bool" where
  "openEffect conn s t \<longleftrightarrow>
     (\<exists>cs fs k. t = s\<lparr>calls := calls s @ cs, nextChan := nextChan s + k, forwarders := forwarders s @ fs\<rparr>
        \<and> list_all (openCall conn) cs \<and> list_all (fwdOf conn) fs
        \<and> (conn = Some NoopConnection \<longrightarrow> cs = []))"

locale channel_source =
  fixes chan :: "(io, amqpChannel) M" and conn :: "amqpConnection option"
  assumes opened: "chan s = (Ok (AmqpChannel n), t) \<Longrightarrow> nextChan s \<le> n \<and> n < nextChan t"
    and effect: "chan s = (r, t) \<Longrightarrow> openEffect conn s t"
begin

lemma opened_is_new: "(\<And>m. m \<in> used \<Longrightarrow> m < nextChan s) \<Longrightarrow> chan s = (Ok (AmqpChannel n), t) \<Longrightarrow> n \<notin> used"
  using opened by fastforce

lemma frame:
  assumes "chan s = (r, t)"
  shows "pubs t = pubs s" "core t = core s" "confirmQ t = confirmQ s" "metricsSt t = metricsSt s" "uuids t = uuids s"
    "nextChan s \<le> nextChan t"
  using effect [OF assms] by (auto simp: openEffect_def)

lemma calls_grow: "keeps calls_grow chan"
proof (rule keepsI)
  fix s
  have "openEffect conn s (snd (chan s))" using effect by (metis prod.collapse)
  then show "calls_grow s (snd (chan s))" by (auto simp: openEffect_def calls_grow_def)
qed

end

lemma openEffectI:
  assumes "t = s\<lparr>calls := calls s @ cs, nextChan := nextChan s + k, forwarders := forwarders s @ fs\<rparr>"
    and "list_all (openCall conn) cs" and "list_all (fwdOf conn) fs"
    and "conn = Some NoopConnection \<longrightarrow> cs = []"
  shows "openEffect conn s t"
  using assms unfolding openEffect_def by blast

lemma openEffect_refl: "openEffect conn s s"
  by (rule openEffectI [where cs = "[]" and k = 0 and fs = "[]"]) simp_all

lemma amqpConn_channel_run:
  "amqpConn_channel L prefetch listener s =
    (let n = nextChan s; s1 = s\<lparr>calls := calls s @ [OpenChannel n]\<rparr>;
         s2 = s1\<lparr>calls := calls s @ [OpenChannel n, Qos n prefetch 0 False], nextChan := Suc n\<rparr>
     in case amqpErr L (calls s) (OpenChannel n) of
       Some e \<Rightarrow> (Err (ErrText e), s1)
     | None \<Rightarrow> (case amqpErr L (calls s1) (Qos n prefetch 0 False) of
         Some e \<Rightarrow> (Err (ErrWrap ''error setting qos: '' (ErrText e)), s2)
       | None \<Rightarrow> (Ok (AmqpChannel n), s2\<lparr>
           calls := calls s @ [OpenChannel n, Qos n prefetch 0 False, NotifyChannelClose n],
           forwarders := forwarders s @ (case listener of None \<Rightarrow> [] | Some l \<Rightarrow> [FwdChannel n l])\<rparr>)))"
  by (simp add: amqpConn_channel_def openChannel_def channel_op_defs run_simps Let_def split: option.split)

lemma amqpConn_channel_effect:
  assumes "amqpConn_channel L a cl s = (r, t)"
  shows "openEffect (Some (AmqpConn a cl)) s t"
proof (cases "amqpErr L (calls s) (OpenChannel (nextChan s))")
  case (Some e)
  with assms show ?thesis
    by (intro openEffectI [where cs = "[OpenChannel (nextChan s)]" and k = 0 and fs = "[]"]) (auto simp: amqpConn_channel_run Let_def dialled_def)
next
  case None
  show ?thesis
  proof (cases "amqpErr L (calls s @ [OpenChannel (nextChan s)]) (Qos (nextChan s) a 0 False)")
    case (Some e)
    with None assms show ?thesis
      by (intro openEffectI [where cs = "[OpenChannel (nextChan s), Qos (nextChan s) a 0 False]" and k = 1 and fs = "[]"])
        (auto simp: amqpConn_channel_run Let_def dialled_def)
  next
    case none: None
    with None assms show ?thesis
      by (intro openEffectI [where cs = "[OpenChannel (nextChan s), Qos (nextChan s) a 0 False,
            NotifyChannelClose (nextChan s)]" and k = 1 and fs = "case cl of None \<Rightarrow> [] | Some l \<Rightarrow> [FwdChannel (nextChan s) l]"])
        (auto simp: amqpConn_channel_run Let_def dialled_def listens_def split: option.splits)
  qed
qed

interpretation amqpConn: channel_source "amqpConn_channel L a cl" "Some (AmqpConn a cl)"
  for L :: lib and a :: int and cl :: "nat option"
proof (unfold_locales, goal_cases)
  case (1 s n t)
  then show ?case by (auto simp: amqpConn_channel_run Let_def split: option.splits)
qed (rule amqpConn_channel_effect)

interpretation noopConnection: channel_source noopConnection_channel "Some NoopConnection"
  by unfold_locales (auto simp: noopConnection_channel_def run_simps openEffect_refl)

interpretation connChan: channel_source "connChannel L c" c for L :: lib and c :: "amqpConnection option"
proof (unfold_locales, goal_cases)
  case (1 s n t)
  then show ?case
    by (auto simp: connChannel_def run_simps noopConnection_channel_def split: option.splits amqpConnection.splits
        dest: amqpConn.opened)
next
  case (2 s r t)
  then show ?case
    by (auto simp: connChannel_def run_simps openEffect_refl split: option.splits amqpConnection.splits
        dest: amqpConn.effect noopConnection.effect)
qed

end
