(* ===== verification/Metrics_Model.thy ===== *)
theory Metrics_Model
  imports Runtime
begin

text \<open>
  The Prometheus metrics of \<open>metrics.go\<close>: counters and histograms by label values, the
  routing-key mapper applied to every routing-key label, and \<open>InitMetrics\<close>, which installs the
  mapper, resets every series and registers the collectors until one registration fails.
  The registry is the caller's: \<open>register\<close> gives its answer for each collector.
\<close>

definition routingKeyLabel :: "metrics \<Rightarrow> string \<Rightarrow> string" where
  "routingKeyLabel m key =
     (let mapped = routingKeyMapper m key in if mapped = [] then ''unknown'' else mapped)"

definition incCounter :: "counter \<Rightarrow> string list \<Rightarrow> metrics \<Rightarrow> metrics" where
  "incCounter c ls m =
     m\<lparr>counters := (counters m)(c := (counters m c)(ls := Suc (counters m c ls)))\<rparr>"

definition observe :: "histogram \<Rightarrow> string list \<Rightarrow> int \<Rightarrow> metrics \<Rightarrow> metrics" where
  "observe h ls ms m =
     m\<lparr>observations := (observations m)(h := (observations m h)(ls := observations m h ls @ [ms]))\<rparr>"

definition onMetrics :: "(metrics \<Rightarrow> metrics) \<Rightarrow> (io, unit) M" where
  "onMetrics f = putM (\<lambda>s. s\<lparr>metricsSt := f (metricsSt s)\<rparr>)"

definition eventReceived :: "string \<Rightarrow> string \<Rightarrow> metrics \<Rightarrow> metrics" where
  "eventReceived queue routingKey m =
     incCounter eventReceivedCounter [queue, routingKeyLabel m routingKey] m"

definition eventWithoutHandler :: "string \<Rightarrow> string \<Rightarrow> metrics \<Rightarrow> metrics" where
  "eventWithoutHandler queue routingKey m =
     incCounter eventWithoutHandlerCounter [queue, routingKeyLabel m routingKey] m"

definition eventNotParsable :: "string \<Rightarrow> string \<Rightarrow> metrics \<Rightarrow> metrics" where
  "eventNotParsable queue routingKey m =
     incCounter eventNotParsableCounter [queue, routingKeyLabel m routingKey] m"

definition eventNack :: "string \<Rightarrow> string \<Rightarrow> int \<Rightarrow> metrics \<Rightarrow> metrics" where
  "eventNack queue routingKey ms m =
     observe eventProcessedDuration [queue, routingKeyLabel m routingKey, ''NACK''] ms
       (incCounter eventNackCounter [queue, routingKeyLabel m routingKey] m)"

definition eventAck :: "string \<Rightarrow> string \<Rightarrow> int \<Rightarrow> metrics \<Rightarrow> metrics" where
  "eventAck queue routingKey ms m =
     observe eventProcessedDuration [queue, routingKeyLabel m routingKey, ''ACK''] ms
       (incCounter eventAckCounter [queue, routingKeyLabel m routingKey] m)"

definition eventPublishSucceed :: "string \<Rightarrow> string \<Rightarrow> int \<Rightarrow> metrics \<Rightarrow> metrics" where
  "eventPublishSucceed exch routingKey ms m =
     observe eventPublishDuration [exch, routingKeyLabel m routingKey, ''OK''] ms
       (incCounter eventPublishSucceedCounter [exch, routingKeyLabel m routingKey] m)"

definition eventPublishFailed :: "string \<Rightarrow> string \<Rightarrow> int \<Rightarrow> metrics \<Rightarrow> metrics" where
  "eventPublishFailed exch routingKey ms m =
     observe eventPublishDuration [exch, routingKeyLabel m routingKey, ''ERROR''] ms
       (incCounter eventPublishFailedCounter [exch, routingKeyLabel m routingKey] m)"

datatype collector = CounterVec counter | HistogramVec histogram

datatype registerResult = Registered | AlreadyRegistered | RegisterFailed string

type_synonym metricsConfig = "string \<Rightarrow> string"

definition WithRoutingKeyMapper :: "(string \<Rightarrow> string) \<Rightarrow> metricsConfig \<Rightarrow> metricsConfig" where
  "WithRoutingKeyMapper fn cfg = fn"

definition collectors :: "collector list" where
  "collectors = [CounterVec eventReceivedCounter, CounterVec eventAckCounter,
     CounterVec eventNackCounter, CounterVec eventWithoutHandlerCounter,
     CounterVec eventNotParsableCounter, HistogramVec eventProcessedDuration,
     CounterVec eventPublishSucceedCounter, CounterVec eventPublishFailedCounter,
     HistogramVec eventPublishDuration]"

fun resetCollector :: "collector \<Rightarrow> metrics \<Rightarrow> metrics" where
  "resetCollector (CounterVec c) m = m\<lparr>counters := (counters m)(c := (\<lambda>_. 0))\<rparr>"
| "resetCollector (HistogramVec h) m = m\<lparr>observations := (observations m)(h := (\<lambda>_. []))\<rparr>"

fun registerAll :: "(collector \<Rightarrow> registerResult) \<Rightarrow> collector list \<Rightarrow> metrics
    \<Rightarrow> goerr option \<times> metrics" where
  "registerAll register [] m = (None, m)"
| "registerAll register (c # cs) m =
     (let m' = resetCollector c m in
      case register c of
        RegisterFailed e \<Rightarrow> (Some (ErrText e), m')
      | _ \<Rightarrow> registerAll register cs m')"

definition InitMetrics :: "(collector \<Rightarrow> registerResult) \<Rightarrow> (metricsConfig \<Rightarrow> metricsConfig) list
    \<Rightarrow> metrics \<Rightarrow> goerr option \<times> metrics" where
  "InitMetrics register opts m =
     registerAll register collectors (m\<lparr>routingKeyMapper := fold (\<lambda>opt. opt) opts (\<lambda>s. s)\<rparr>)"

text \<open>The state before \<open>InitMetrics\<close>: the identity mapper of \<open>init()\<close>.\<close>

definition initialMetrics :: metrics where
  "initialMetrics = \<lparr>counters = (\<lambda>_ _. 0), observations = (\<lambda>_ _. []), routingKeyMapper = (\<lambda>s. s)\<rparr>"

lemmas event_defs =
  eventReceived_def eventWithoutHandler_def eventNotParsable_def eventNack_def eventAck_def
  eventPublishSucceed_def eventPublishFailed_def

lemma routingKeyLabel_nonempty: "routingKeyLabel m key \<noteq> []"
  by (simp add: routingKeyLabel_def Let_def)

lemma incCounter_counters [simp]:
  "counters (incCounter c ls m) d ks = counters m d ks + (if c = d \<and> ls = ks then 1 else 0)"
  by (simp add: incCounter_def)

lemma incCounter_frame [simp]:
  "routingKeyMapper (incCounter c ls m) = routingKeyMapper m"
  "observations (incCounter c ls m) = observations m"
  by (simp_all add: incCounter_def)

lemma observe_frame [simp]:
  "routingKeyMapper (observe h ls ms m) = routingKeyMapper m"
  "counters (observe h ls ms m) = counters m"
  by (simp_all add: observe_def)

lemma event_mapper [simp]:
  "routingKeyMapper (eventReceived q k m) = routingKeyMapper m"
  "routingKeyMapper (eventWithoutHandler q k m) = routingKeyMapper m"
  "routingKeyMapper (eventNotParsable q k m) = routingKeyMapper m"
  "routingKeyMapper (eventNack q k ms m) = routingKeyMapper m"
  "routingKeyMapper (eventAck q k ms m) = routingKeyMapper m"
  "routingKeyMapper (eventPublishSucceed q k ms m) = routingKeyMapper m"
  "routingKeyMapper (eventPublishFailed q k ms m) = routingKeyMapper m"
  by (simp_all add: event_defs)

lemma onMetrics_run [run_simps]: "onMetrics f s = (Ok (), s\<lparr>metricsSt := f (metricsSt s)\<rparr>)"
  by (simp add: onMetrics_def run_simps)

lemma calls_grow_onMetrics [keeps_rules]: "keeps calls_grow (onMetrics f)"
  by (simp add: keeps_def run_simps calls_grow_def)

lemma resetCollector_mapper [simp]: "routingKeyMapper (resetCollector c m) = routingKeyMapper m"
  by (cases c) simp_all

lemma registerAll_mapper [simp]: "routingKeyMapper (snd (registerAll r cs m)) = routingKeyMapper m"
  by (induction cs arbitrary: m) (auto simp: Let_def split: registerResult.split)

lemma registerAll_result:
  "fst (registerAll r cs m) =
     (case find (\<lambda>c. \<exists>e. r c = RegisterFailed e) cs of
        None \<Rightarrow> None
      | Some c \<Rightarrow> (case r c of RegisterFailed e \<Rightarrow> Some (ErrText e) | _ \<Rightarrow> None))"
  by (induction cs arbitrary: m) (auto simp: Let_def split: registerResult.split)

lemma registerAll_keeps_zero:
  "counters m c = (\<lambda>_. 0) \<Longrightarrow> counters (snd (registerAll r cs m)) c = (\<lambda>_. 0)"
  "observations m h = (\<lambda>_. []) \<Longrightarrow> observations (snd (registerAll r cs m)) h = (\<lambda>_. [])"
proof (induction cs arbitrary: m)
  case (Cons d cs)
  { case 1 then show ?case using Cons.IH(1) [of "resetCollector d m"]
      by (cases d) (auto simp: Let_def split: registerResult.split) }
  { case 2 then show ?case using Cons.IH(2) [of "resetCollector d m"]
      by (cases d) (auto simp: Let_def split: registerResult.split) }
qed simp_all

lemma registerAll_resets:
  assumes "fst (registerAll r cs m) = None"
  shows "CounterVec c \<in> set cs \<Longrightarrow> counters (snd (registerAll r cs m)) c = (\<lambda>_. 0)"
    and "HistogramVec h \<in> set cs \<Longrightarrow> observations (snd (registerAll r cs m)) h = (\<lambda>_. [])"
  using assms
  by (induction cs arbitrary: m)
    (auto simp: Let_def registerAll_keeps_zero split: registerResult.splits)

text \<open>
  When \<open>InitMetrics\<close> returns nil, every series of all nine collectors has been
  reset and the mapper of the last option is in force; when it returns an error, the error is that
  of the first collector the registry refused for a reason other than being registered already,
  and the mapper has been replaced all the same.
\<close>

lemma InitMetrics_correct:
  assumes "InitMetrics register opts m = (err, m')"
  shows "routingKeyMapper m' = fold (\<lambda>opt. opt) opts (\<lambda>s. s)
     \<and> (err = None \<longrightarrow> counters m' c ls = 0 \<and> observations m' h ls = [])
     \<and> err = (case find (\<lambda>k. \<exists>e. register k = RegisterFailed e) collectors of
          None \<Rightarrow> None
        | Some k \<Rightarrow> (case register k of RegisterFailed e \<Rightarrow> Some (ErrText e) | _ \<Rightarrow> None))"
proof -
  define m0 where "m0 = m\<lparr>routingKeyMapper := fold (\<lambda>opt. opt) opts (\<lambda>s. s)\<rparr>"
  from assms have eq: "registerAll register collectors m0 = (err, m')"
    by (simp add: InitMetrics_def m0_def)
  have "routingKeyMapper m' = routingKeyMapper m0"
    using registerAll_mapper [of register collectors m0] by (simp add: eq)
  moreover have "CounterVec c \<in> set collectors" "HistogramVec h \<in> set collectors"
    by (cases c; simp add: collectors_def) (cases h; simp add: collectors_def)
  ultimately show ?thesis
    using eq registerAll_resets [of register collectors m0] registerAll_result [of register collectors m0]
    by (simp add: m0_def)
qed

lemma InitMetrics_correct_witness:
  "counters (snd (InitMetrics (\<lambda>_. Registered) [] (eventReceived ''q'' ''k'' initialMetrics)))
     eventReceivedCounter [''q'', ''k''] = 0"
proof -
  have "InitMetrics (\<lambda>_. Registered) [] (eventReceived ''q'' ''k'' initialMetrics)
    = (None, snd (InitMetrics (\<lambda>_. Registered) [] (eventReceived ''q'' ''k'' initialMetrics)))"
    by (simp add: InitMetrics_def collectors_def Let_def)
  from InitMetrics_correct [OF this] show ?thesis by simp
qed

end
