(* ===== verification/Notifications.thy ===== *)
theory Notifications
  imports Runtime
begin

text \<open>
  Notifications, \<open>notifications.go\<close>: a send on a notification channel that never blocks.
  If the channel takes no value at the moment, the notification is dropped; a nil channel
  (\<open>None\<close>) is skipped.
\<close>

definition trySend :: "'a \<Rightarrow> 'a gochan \<Rightarrow> 'a gochan" where
  "trySend x ch = (if room ch = 0 then ch else ch\<lparr>room := room ch - 1, sent := sent ch @ [x]\<rparr>)"

definition notifyEventHandlerSucceed :: "nat option \<Rightarrow> deliveryInfo \<Rightarrow> int \<Rightarrow> (io, unit) M" where
  "notifyEventHandlerSucceed ch info took =
     (case ch of
        None \<Rightarrow> returnM ()
      | Some i \<Rightarrow> putM (\<lambda>s. s\<lparr>notifications := (notifications s)(i := trySend
          \<lparr>notifInfo = info, notifSource = NotificationSourceConsumer, notifDuration = took\<rparr>
          (notifications s i))\<rparr>))"

definition notifyEventHandlerFailed ::
  "nat option \<Rightarrow> deliveryInfo \<Rightarrow> int \<Rightarrow> goerr \<Rightarrow> (io, unit) M" where
  "notifyEventHandlerFailed ch info took err =
     (case ch of
        None \<Rightarrow> returnM ()
      | Some i \<Rightarrow> putM (\<lambda>s. s\<lparr>errorNotifications := (errorNotifications s)(i := trySend
          \<lparr>errError = err, errInfo = info, errSource = NotificationSourceConsumer, errDuration = took\<rparr>
          (errorNotifications s i))\<rparr>))"

lemma trySend_total: "room (trySend x ch) + length (sent (trySend x ch)) = room ch + length (sent ch)"
  by (simp add: trySend_def)

lemma notify_runs:
  "fst (notifyEventHandlerSucceed ch info took s) = Ok ()"
  "fst (notifyEventHandlerFailed ch info took err s) = Ok ()"
  by (simp_all add: notifyEventHandlerSucceed_def notifyEventHandlerFailed_def run_simps
      split: option.split)

text \<open>The channels after a notification.\<close>

definition afterSucceed :: "nat option \<Rightarrow> deliveryInfo \<Rightarrow> int \<Rightarrow> (nat \<Rightarrow> notification gochan) \<Rightarrow> nat \<Rightarrow> notification gochan" where
  "afterSucceed ch info took N = (case ch of
      None \<Rightarrow> N
    | Some i \<Rightarrow> N(i := trySend \<lparr>notifInfo = info, notifSource = NotificationSourceConsumer, notifDuration = took\<rparr> (N i)))"

definition afterFailed :: "nat option \<Rightarrow> deliveryInfo \<Rightarrow> int \<Rightarrow> goerr \<Rightarrow> (nat \<Rightarrow> errorNotification gochan)
    \<Rightarrow> nat \<Rightarrow> errorNotification gochan" where
  "afterFailed ch info took err N = (case ch of
      None \<Rightarrow> N
    | Some i \<Rightarrow> N(i := trySend \<lparr>errError = err, errInfo = info, errSource = NotificationSourceConsumer,
        errDuration = took\<rparr> (N i)))"

lemma notify_run [run_simps]:
  "notifyEventHandlerSucceed ch info took s =
     (Ok (), s\<lparr>notifications := afterSucceed ch info took (notifications s)\<rparr>)"
  "notifyEventHandlerFailed ch info took err s =
     (Ok (), s\<lparr>errorNotifications := afterFailed ch info took err (errorNotifications s)\<rparr>)"
  by (simp_all add: notifyEventHandlerSucceed_def notifyEventHandlerFailed_def afterSucceed_def
      afterFailed_def run_simps split: option.split)

lemma calls_grow_notify [keeps_rules]:
  "keeps calls_grow (notifyEventHandlerSucceed ch info took)"
  "keeps calls_grow (notifyEventHandlerFailed ch info took err)"
  by (auto simp: keeps_def calls_grow_def notifyEventHandlerSucceed_def
      notifyEventHandlerFailed_def run_simps split: option.split)

end
