(* ===== verification/Consumer.thy ===== *)
theory Consumer
  imports Routing_Handlers Channel Metrics_Model Notifications
begin

text \<open>
  Consuming, \<open>consumer.go\<close>: the loop of a queue consumer, the handling of one delivery and its
  settlement. The state of a loop is the shared state \<open>io\<close>, on which the user's handlers act, and
  the sequence of settlements (acks, nacks, rejects) sent for deliveries; handlers never see the
  delivery itself, so only the loop settles. The answers to settlements are only logged by the code.
  A handler that panics ends the process, one that blocks stops the loop: both are results of the
  loop here.
\<close>

datatype settlement =
    Acked (settledTag: nat) (multiple: bool)
  | Nacked (settledTag: nat) (multiple: bool) (requeue: bool)
  | Rejected (settledTag: nat) (requeue: bool)
  where "multiple (Rejected t r) = False" | "requeue (Acked t m) = False"

record loopState =
  lio :: io
  settled :: "settlement list"

definition liftIO :: "(io, 'a) M \<Rightarrow> (loopState, 'a) M" where
  "liftIO m s = (case m (lio s) of (r, t) \<Rightarrow> (r, s\<lparr>lio := t\<rparr>))"

definition settle :: "settlement \<Rightarrow> (loopState, unit) M" where
  "settle a = putM (\<lambda>s. s\<lparr>settled := settled s @ [a]\<rparr>)"

definition deferSpanEnd :: "nat \<Rightarrow> (loopState, 'a) M \<Rightarrow> (loopState, 'a) M" where
  "deferSpanEnd sp m s =
     (case m s of (r, t) \<Rightarrow> (r, t\<lparr>lio := (lio t)\<lparr>spanLog := spanLog (lio t) @ [SpanEnd sp]\<rparr>\<rparr>))"

definition getDeliveryInfo :: "string \<Rightarrow> delivery \<Rightarrow> deliveryInfo" where
  "getDeliveryInfo queueName d =
     \<lparr>Destination = queueName, Source = Exchange d, Key = RoutingKey d, infoHeaders = deliveryHeaders d\<rparr>"

definition getTracer :: "lib \<Rightarrow> queueConsumer \<Rightarrow> tracer" where
  "getTracer L c = (case qcTracer c of Some t \<Rightarrow> t | None \<Rightarrow> tracerFromProvider L None)"

definition queueConsumer_log :: "queueConsumer \<Rightarrow> logger" where
  "queueConsumer_log c = (case qcLogger c of Some l \<Rightarrow> l | None \<Rightarrow> slogDefault)"

text \<open>\<open>consume\<close>: the consumer with its channels set, and the call on the channel.\<close>

definition queueConsumer_consume ::
  "lib \<Rightarrow> queueConsumer \<Rightarrow> amqpChannel option \<Rightarrow> nat option \<Rightarrow> nat option \<Rightarrow> queueConsumer \<times> (io, unit) M" where
  "queueConsumer_consume L c ch notificationCh' errorCh' =
     (c\<lparr>qcNotificationCh := notificationCh', qcErrorCh := errorCh'\<rparr>,
      chConsume L ch (queue c) [] False False False False None)"

definition rejectOrNack :: "delivery \<Rightarrow> deliveryInfo \<Rightarrow> int \<Rightarrow> goerr \<Rightarrow> (loopState, unit) M" where
  "rejectOrNack d info elapsedMs err =
     (if errors_Is err ErrParseJSON then
        thenM (liftIO (onMetrics (eventNotParsable (Destination info) (Key info))))
          (settle (Nacked (Tag d) False False))
      else if errors_Is err ErrNoMessageTypeForRouteKey then
        thenM (liftIO (onMetrics (eventWithoutHandler (Destination info) (Key info))))
          (settle (Rejected (Tag d) False))
      else
        thenM (liftIO (onMetrics (eventNack (Destination info) (Key info) elapsedMs)))
          (settle (Nacked (Tag d) False True)))"

text \<open>\<open>spec.EnrichLegacyMetadata\<close> with the UUID generator as callback.\<close>

definition enrichMetadata :: "lib \<Rightarrow> metadata \<Rightarrow> deliveryInfo \<Rightarrow> (io, metadata) M" where
  "enrichMetadata L m info s =
     (case EnrichLegacyMetadata L m info (\<lambda>n. (newUUID L n, Suc n)) (uuids s) of
        (m', n) \<Rightarrow> (Ok m', s\<lparr>uuids := n\<rparr>))"

definition handleDelivery ::
  "lib \<Rightarrow> queueConsumer \<Rightarrow> wrappedHandler \<Rightarrow> delivery \<Rightarrow> deliveryInfo \<Rightarrow> (loopState, unit) M" where
  "handleDelivery L c handler d info0 =
     (let info = info0\<lparr>infoHeaders := NormalizeCEHeaders L (infoHeaders info0)\<rparr>;
          isLegacy = (\<not> HasCEHeaders L (infoHeaders info));
          headerCtx = extractToContext L Background (deliveryHeaders d) (qcPropagator c);
          metadata0 = MetadataFromHeaders L (infoHeaders info)
      in bindM (if isLegacy \<and> qcLegacySupport c then liftIO (enrichMetadata L metadata0 info)
                else returnM metadata0) (\<lambda>metadata.
      case qcSpanNameFn c of
        None \<Rightarrow> panicM nilDereference
      | Some nameFn \<Rightarrow>
      bindM (liftIO (startSpan (getTracer L c) headerCtx (nameFn info) SpanKindConsumer
          (consumerSpanAttributes info (qcServiceName c) (ID metadata) (int (length (deliveryBody d))))))
      (\<lambda>(tracingCtx, sp). deferSpanEnd sp
      (bindM (liftIO (timeNow L)) (\<lambda>startTime.
      bindM (liftIO (tryM (handler tracingCtx
          \<lparr>Metadata = metadata, DeliveryInfo = info, Payload = deliveryBody d\<rparr>))) (\<lambda>err.
      case err of
        Some e \<Rightarrow>
          thenM (liftIO (spanFailed L sp e))
          (bindM (liftIO (timeNow L)) (\<lambda>now. let elapsed = now - startTime in
           thenM (liftIO (notifyEventHandlerFailed (qcErrorCh c) info elapsed e))
             (rejectOrNack d info elapsed e)))
      | None \<Rightarrow>
          bindM (liftIO (timeNow L)) (\<lambda>now. let elapsed = now - startTime in
          thenM (liftIO (spanDo (SpanStatus sp StatusOk)))
          (thenM (liftIO (notifyEventHandlerSucceed (qcNotificationCh c) info elapsed))
          (thenM (settle (Acked (Tag d) False))
          (liftIO (onMetrics (eventAck (Destination info) (Key info) elapsed))))))))))))"

text \<open>One round of the loop, and the loop over the deliveries until their channel is closed.\<close>

definition loopBody :: "lib \<Rightarrow> queueConsumer \<Rightarrow> delivery \<Rightarrow> (loopState, unit) M" where
  "loopBody L c d =
     (let info = getDeliveryInfo (queue c) d in
      thenM (liftIO (onMetrics (eventReceived (queue c) (Key info))))
      (case rkh_get L (handlers c) (Key info) of
         None \<Rightarrow>
           thenM (liftIO (onMetrics (eventWithoutHandler (queue c) (Key info))))
             (settle (Rejected (Tag d) False))
       | Some handler \<Rightarrow> handleDelivery L c handler d info))"

definition loop :: "lib \<Rightarrow> queueConsumer \<Rightarrow> delivery list \<Rightarrow> (loopState, unit) M" where
  "loop L c deliveries = forM (loopBody L c) deliveries"

lemma liftIO_run [run_simps]: "liftIO m s = (case m (lio s) of (r, t) \<Rightarrow> (r, s\<lparr>lio := t\<rparr>))"
  by (simp add: liftIO_def)

lemma liftIO_Ok: "m (lio s) = (Ok a, t) \<Longrightarrow> liftIO m s = (Ok a, s\<lparr>lio := t\<rparr>)"
  by (simp add: liftIO_def)

lemma settle_run [run_simps]: "settle a s = (Ok (), s\<lparr>settled := settled s @ [a]\<rparr>)"
  by (simp add: settle_def run_simps)

lemma deferSpanEnd_run [run_simps]:
  "deferSpanEnd sp m s =
     (case m s of (r, t) \<Rightarrow> (r, t\<lparr>lio := (lio t)\<lparr>spanLog := spanLog (lio t) @ [SpanEnd sp]\<rparr>\<rparr>))"
  by (simp add: deferSpanEnd_def)


subsection \<open>What a handler receives\<close>

definition deliveredInfo :: "lib \<Rightarrow> queueConsumer \<Rightarrow> delivery \<Rightarrow> deliveryInfo" where
  "deliveredInfo L c d = \<lparr>Destination = queue c, Source = Exchange d, Key = RoutingKey d,
     infoHeaders = NormalizeCEHeaders L (deliveryHeaders d)\<rparr>"

definition enriches :: "lib \<Rightarrow> queueConsumer \<Rightarrow> delivery \<Rightarrow> bool" where
  "enriches L c d \<longleftrightarrow> \<not> HasCEHeaders L (NormalizeCEHeaders L (deliveryHeaders d)) \<and> qcLegacySupport c"

text \<open>The metadata and the number of UUIDs drawn up to then.\<close>

definition deliveredMetadata :: "lib \<Rightarrow> queueConsumer \<Rightarrow> delivery \<Rightarrow> nat \<Rightarrow> metadata \<times> nat" where
  "deliveredMetadata L c d n =
     (let m = MetadataFromHeaders L (NormalizeCEHeaders L (deliveryHeaders d)) in
      if enriches L c d then EnrichLegacyMetadata L m (deliveredInfo L c d) (\<lambda>n. (newUUID L n, Suc n)) n
      else (m, n))"

definition deliveredEvent :: "lib \<Rightarrow> queueConsumer \<Rightarrow> delivery \<Rightarrow> io \<Rightarrow> unmarshalEvent" where
  "deliveredEvent L c d s = \<lparr>Metadata = fst (deliveredMetadata L c d (uuids s)),
     DeliveryInfo = deliveredInfo L c d, Payload = deliveryBody d\<rparr>"

definition deliveredCtx :: "lib \<Rightarrow> queueConsumer \<Rightarrow> delivery \<Rightarrow> io \<Rightarrow> ctx" where
  "deliveredCtx L c d s =
     SpanCtx (extractToContext L Background (deliveryHeaders d) (qcPropagator c)) (nextSpan s)"

text \<open>The state in which the handler is called.\<close>

definition handlerReady :: "lib \<Rightarrow> queueConsumer \<Rightarrow> (deliveryInfo \<Rightarrow> string) \<Rightarrow> delivery \<Rightarrow> io \<Rightarrow> io" where
  "handlerReady L c nameFn d s =
     s\<lparr>uuids := snd (deliveredMetadata L c d (uuids s)),
       nextSpan := Suc (nextSpan s),
       spanLog := spanLog s @ [SpanStart (nextSpan s) (getTracer L c)
         (extractToContext L Background (deliveryHeaders d) (qcPropagator c))
         (nameFn (deliveredInfo L c d)) SpanKindConsumer
         (consumerSpanAttributes (deliveredInfo L c d) (qcServiceName c)
           (ID (fst (deliveredMetadata L c d (uuids s)))) (int (length (deliveryBody d))))],
       ticks := Suc (ticks s)\<rparr>"

text \<open>What follows the handler's result: settlement, metrics, span, notification.\<close>

definition errVerdict :: "nat \<Rightarrow> goerr \<Rightarrow> settlement" where
  "errVerdict tag e =
     (if errors_Is e ErrParseJSON then Nacked tag False False
      else if errors_Is e ErrNoMessageTypeForRouteKey then Rejected tag False
      else Nacked tag False True)"

fun verdict :: "nat \<Rightarrow> unit res \<Rightarrow> settlement list" where
  "verdict tag (Ok u) = [Acked tag False]"
| "verdict tag (Err e) = [errVerdict tag e]"
| "verdict tag r = []"

fun loopResult :: "unit res \<Rightarrow> unit res" where
  "loopResult (Panic p) = Panic p"
| "loopResult Blocked = Blocked"
| "loopResult r = Ok ()"

definition errMetrics :: "deliveryInfo \<Rightarrow> int \<Rightarrow> goerr \<Rightarrow> metrics \<Rightarrow> metrics" where
  "errMetrics info el e =
     (if errors_Is e ErrParseJSON then eventNotParsable (Destination info) (Key info)
      else if errors_Is e ErrNoMessageTypeForRouteKey then eventWithoutHandler (Destination info) (Key info)
      else eventNack (Destination info) (Key info) el)"

fun verdictMetrics :: "deliveryInfo \<Rightarrow> int \<Rightarrow> unit res \<Rightarrow> metrics \<Rightarrow> metrics" where
  "verdictMetrics info el (Ok u) m = eventAck (Destination info) (Key info) el m"
| "verdictMetrics info el (Err e) m = errMetrics info el e m"
| "verdictMetrics info el r m = m"

fun verdictSpan :: "lib \<Rightarrow> nat \<Rightarrow> unit res \<Rightarrow> spanEvent list" where
  "verdictSpan L sp (Ok u) = [SpanStatus sp StatusOk, SpanEnd sp]"
| "verdictSpan L sp (Err e) =
     [SpanError sp e, SpanStatus sp (StatusError (Error (ErrParseJSONText L) e)), SpanEnd sp]"
| "verdictSpan L sp r = [SpanEnd sp]"

lemma rejectOrNack_run:
  "rejectOrNack d info el e s =
     (Ok (), s\<lparr>lio := (lio s)\<lparr>metricsSt := errMetrics info el e (metricsSt (lio s))\<rparr>,
        settled := settled s @ [errVerdict (Tag d) e]\<rparr>)"
  by (simp add: rejectOrNack_def run_simps errMetrics_def errVerdict_def)

lemma handleDelivery_start:
  assumes "qcSpanNameFn c = Some nameFn"
  shows "handleDelivery L c h d (getDeliveryInfo (queue c) d) s =
    deferSpanEnd (nextSpan (lio s))
      (bindM (liftIO (tryM (h (deliveredCtx L c d (lio s)) (deliveredEvent L c d (lio s))))) (\<lambda>err.
        case err of
          Some e \<Rightarrow> thenM (liftIO (spanFailed L (nextSpan (lio s)) e))
            (bindM (liftIO (timeNow L)) (\<lambda>now. let elapsed = now - clock L (ticks (lio s)) in
             thenM (liftIO (notifyEventHandlerFailed (qcErrorCh c) (deliveredInfo L c d) elapsed e))
               (rejectOrNack d (deliveredInfo L c d) elapsed e)))
        | None \<Rightarrow> bindM (liftIO (timeNow L)) (\<lambda>now. let elapsed = now - clock L (ticks (lio s)) in
            thenM (liftIO (spanDo (SpanStatus (nextSpan (lio s)) StatusOk)))
            (thenM (liftIO (notifyEventHandlerSucceed (qcNotificationCh c) (deliveredInfo L c d) elapsed))
            (thenM (settle (Acked (Tag d) False))
            (liftIO (onMetrics (eventAck (queue c) (RoutingKey d) elapsed))))))))
      (s\<lparr>lio := handlerReady L c nameFn d (lio s)\<rparr>)"
proof -
  let ?info = "(getDeliveryInfo (queue c) d)\<lparr>infoHeaders := NormalizeCEHeaders L (infoHeaders (getDeliveryInfo (queue c) d))\<rparr>"
  have info: "?info = deliveredInfo L c d" by (simp add: getDeliveryInfo_def deliveredInfo_def)
  have heads: "infoHeaders (deliveredInfo L c d) = NormalizeCEHeaders L (deliveryHeaders d)"
    "Destination (deliveredInfo L c d) = queue c" "Key (deliveredInfo L c d) = RoutingKey d"
    by (simp_all add: deliveredInfo_def)
  let ?meta = "if \<not> HasCEHeaders L (NormalizeCEHeaders L (deliveryHeaders d)) \<and> qcLegacySupport c
      then liftIO (enrichMetadata L (MetadataFromHeaders L (NormalizeCEHeaders L (deliveryHeaders d))) (deliveredInfo L c d))
      else returnM (MetadataFromHeaders L (NormalizeCEHeaders L (deliveryHeaders d)))"
  have meta: "?meta s =
    (Ok (fst (deliveredMetadata L c d (uuids (lio s)))),
     s\<lparr>lio := (lio s)\<lparr>uuids := snd (deliveredMetadata L c d (uuids (lio s)))\<rparr>\<rparr>)"
    by (simp add: deliveredMetadata_def enriches_def enrichMetadata_def run_simps Let_def split: prod.split)
  show ?thesis
    unfolding handleDelivery_def info Let_def heads bindM_Ok [of ?meta s, OF meta] assms option.case
    by (simp add: bindM_Ok [OF liftIO_Ok [OF startSpan_run]] bindM_Ok [OF liftIO_Ok [OF timeNow_run]]
        deferSpanEnd_run deliveredCtx_def deliveredEvent_def handlerReady_def cong del: option.case_cong_weak)
qed

lemma handleDelivery_outcome:
  assumes nameFn: "qcSpanNameFn c = Some nameFn"
    and h: "h (deliveredCtx L c d (lio s)) (deliveredEvent L c d (lio s)) (handlerReady L c nameFn d (lio s)) = (r, s2)"
    and run: "handleDelivery L c h d (getDeliveryInfo (queue c) d) s = (x, t)"
  shows "x = loopResult r" and "settled t = settled s @ verdict (Tag d) r"
    and "metricsSt (lio t) = verdictMetrics (deliveredInfo L c d)
      (clock L (ticks s2) - clock L (ticks (lio s))) r (metricsSt s2)"
    and "spanLog (lio t) = spanLog s2 @ verdictSpan L (nextSpan (lio s)) r"
    and "calls (lio t) = calls s2"
proof -
  have info: "Destination (deliveredInfo L c d) = queue c" "Key (deliveredInfo L c d) = RoutingKey d"
    by (simp_all add: deliveredInfo_def)
  show "x = loopResult r" and "settled t = settled s @ verdict (Tag d) r"
    and "metricsSt (lio t) = verdictMetrics (deliveredInfo L c d)
      (clock L (ticks s2) - clock L (ticks (lio s))) r (metricsSt s2)"
    and "spanLog (lio t) = spanLog s2 @ verdictSpan L (nextSpan (lio s)) r"
    and "calls (lio t) = calls s2"
    using run unfolding handleDelivery_start [OF nameFn]
    by (cases r; auto simp: run_simps h rejectOrNack_run info Let_def)+
qed

text \<open>The outcome of one round.\<close>

lemma loopBody_unhandled:
  assumes "rkh_get L (handlers c) (RoutingKey d) = None"
  shows "loopBody L c d s = (Ok (), s\<lparr>lio := (lio s)\<lparr>metricsSt :=
      eventWithoutHandler (queue c) (RoutingKey d) (eventReceived (queue c) (RoutingKey d) (metricsSt (lio s)))\<rparr>,
    settled := settled s @ [Rejected (Tag d) False]\<rparr>)"
  using assms by (simp add: loopBody_def getDeliveryInfo_def run_simps Let_def)

definition received :: "queueConsumer \<Rightarrow> delivery \<Rightarrow> io \<Rightarrow> io" where
  "received c d s = s\<lparr>metricsSt := eventReceived (queue c) (RoutingKey d) (metricsSt s)\<rparr>"

lemma loopBody_handled:
  assumes "rkh_get L (handlers c) (RoutingKey d) = Some h"
  shows "loopBody L c d s =
    handleDelivery L c h d (getDeliveryInfo (queue c) d) (s\<lparr>lio := received c d (lio s)\<rparr>)"
  using assms
  by (simp add: loopBody_def getDeliveryInfo_def Let_def bindM_Ok [OF liftIO_Ok [OF onMetrics_run]] received_def)

lemma loopBody_settles:
  assumes "qcSpanNameFn c = Some nameFn" and "loopBody L c d s = (x, t)"
  shows "(\<exists>a. settled t = settled s @ [a] \<and> settledTag a = Tag d \<and> \<not> multiple a \<and> x = Ok ())
    \<or> (settled t = settled s \<and> (x = Blocked \<or> (\<exists>p. x = Panic p)))"
proof (cases "rkh_get L (handlers c) (RoutingKey d)")
  case None
  with assms(2) show ?thesis by (auto simp: loopBody_unhandled)
next
  case (Some h)
  let ?s = "s\<lparr>lio := received c d (lio s)\<rparr>"
  obtain r s2 where h: "h (deliveredCtx L c d (lio ?s)) (deliveredEvent L c d (lio ?s))
      (handlerReady L c nameFn d (lio ?s)) = (r, s2)" by fastforce
  from handleDelivery_outcome(1,2) [where h = h, OF assms(1) h] assms(2) Some
  have "x = loopResult r" "settled t = settled s @ verdict (Tag d) r"
    by (auto simp: loopBody_handled)
  then show ?thesis by (cases r) (auto simp: errVerdict_def)
qed

text \<open>
  C7: every delivery is settled exactly once, in the order of arrival. Whatever the
  handlers do, the settlements of a run of the consumer loop are one for each delivery, in order, each
  for that delivery alone; only a handler that panics or never returns leaves its delivery
  unsettled, and then the loop ends there with nothing settled after it.
\<close>

theorem loop_settles_each_once:
  assumes "qcSpanNameFn c \<noteq> None" and "loop L c ds s = (x, t)"
  shows "\<exists>as. settled t = settled s @ as \<and> map settledTag as = map Tag (take (length as) ds)
    \<and> list_all (\<lambda>a. \<not> multiple a) as
    \<and> (if length as = length ds then x = Ok () else x = Blocked \<or> (\<exists>p. x = Panic p))"
  using assms(2)
proof (induction ds arbitrary: s)
  case Nil
  then show ?case by (auto simp: loop_def run_simps)
next
  case (Cons d ds)
  from assms(1) obtain nameFn where f: "qcSpanNameFn c = Some nameFn" by auto
  obtain y s1 where body: "loopBody L c d s = (y, s1)" by fastforce
  from loopBody_settles [OF f body] consider
    (settled) a where "settled s1 = settled s @ [a]" "settledTag a = Tag d" "\<not> multiple a" "y = Ok ()"
    | (stopped) "settled s1 = settled s" "y = Blocked \<or> (\<exists>p. y = Panic p)" by blast
  then show ?case
  proof cases
    case settled
    then have "loop L c ds s1 = (x, t)" using Cons.prems body by (simp add: loop_def bindM_run)
    from Cons.IH [OF this] obtain as where as: "settled t = settled s1 @ as"
      "map settledTag as = map Tag (take (length as) ds)" "list_all (\<lambda>a. \<not> multiple a) as"
      "if length as = length ds then x = Ok () else x = Blocked \<or> (\<exists>p. x = Panic p)" by blast
    with settled show ?thesis by (intro exI [of _ "a # as"]) auto
  next
    case stopped
    then have "x = y \<and> t = s1" using Cons.prems body by (auto simp: loop_def bindM_run)
    with stopped show ?thesis by (intro exI [of _ "[]"]) auto
  qed
qed

text \<open>A consumer of one queue whose handlers succeed, fail to parse, and know no type.\<close>

definition demoConsumer :: queueConsumer where
  "demoConsumer = (newQueueConsumer ''q'' (Some (\<lambda>_. ''span'')))\<lparr>handlers :=
     [(''ok'', \<lambda>_ _. returnM ()), (''bad'', \<lambda>_ _. failM (parseError ''eof'')),
      (''none'', \<lambda>_ _. failM ErrNoMessageTypeForRouteKey), (''fail'', \<lambda>_ _. failM (ErrText ''x''))]\<rparr>"

definition demoDelivery :: "nat \<Rightarrow> string \<Rightarrow> delivery" where
  "demoDelivery tag k = \<lparr>Tag = tag, Exchange = ''e'', RoutingKey = k, deliveryHeaders = [], deliveryBody = ''{}''\<rparr>"

lemma demoConsumer_simps [simp]:
  "qcSpanNameFn demoConsumer = Some (\<lambda>_. ''span'')" "queue demoConsumer = ''q''"
  "qcLegacySupport demoConsumer = False"
  by (simp_all add: demoConsumer_def newQueueConsumer_def)

theorem loop_settles_each_once_witness:
  "\<exists>as. settled (snd (loop demoLib demoConsumer [demoDelivery 7 ''x'', demoDelivery 8 ''y''] \<lparr>lio = demoIO, settled = []\<rparr>)) = as
     \<and> map settledTag as = [7, 8]"
proof -
  let ?run = "loop demoLib demoConsumer [demoDelivery 7 ''x'', demoDelivery 8 ''y''] \<lparr>lio = demoIO, settled = []\<rparr>"
  have none: "rkh_get demoLib (handlers demoConsumer) ''x'' = None" "rkh_get demoLib (handlers demoConsumer) ''y'' = None"
    by (simp_all add: demoConsumer_def)
  have "fst ?run = Ok ()"
    using none by (simp add: loop_def run_simps loopBody_unhandled demoDelivery_def)
  with loop_settles_each_once [OF _ surjective_pairing, of demoConsumer demoLib
      "[demoDelivery 7 ''x'', demoDelivery 8 ''y'']" "\<lparr>lio = demoIO, settled = []\<rparr>"]
  show ?thesis by (auto simp: demoDelivery_def split: if_splits)
qed




subsection \<open>Metrics\<close>

text \<open>The consumer's counters and the mapper of labels, which only this file and \<open>InitMetrics\<close> change.\<close>

definition same_consumer_metrics :: "io \<Rightarrow> io \<Rightarrow> bool" where
  "same_consumer_metrics s t \<longleftrightarrow>
     routingKeyMapper (metricsSt t) = routingKeyMapper (metricsSt s) \<and>
     (\<forall>k \<in> {eventReceivedCounter, eventAckCounter, eventNackCounter, eventWithoutHandlerCounter,
        eventNotParsableCounter}. counters (metricsSt t) k = counters (metricsSt s) k)"

interpretation same_consumer_metrics: effect_rel same_consumer_metrics
  by unfold_locales (auto simp: same_consumer_metrics_def)

definition settledCount :: "metrics \<Rightarrow> string list \<Rightarrow> nat" where
  "settledCount m ls = counters m eventAckCounter ls + counters m eventNackCounter ls
     + counters m eventWithoutHandlerCounter ls + counters m eventNotParsableCounter ls"

lemma settledCount_events:
  "settledCount (eventReceived q k m) ls = settledCount m ls"
  "settledCount (eventWithoutHandler q k m) ls = settledCount m ls + (if ls = [q, routingKeyLabel m k] then 1 else 0)"
  "counters (eventWithoutHandler q k m) eventReceivedCounter = counters m eventReceivedCounter"
  by (auto simp: settledCount_def event_defs incCounter_def)

lemma settledCount_verdict:
  "r = Ok () \<or> r = Err e \<Longrightarrow>
   settledCount (verdictMetrics info el r m) ls =
     settledCount m ls + (if ls = [Destination info, routingKeyLabel m (Key info)] then 1 else 0)"
  "counters (verdictMetrics info el r m) eventReceivedCounter = counters m eventReceivedCounter"
  by (cases r; auto simp: settledCount_def event_defs errMetrics_def incCounter_def observe_def)+

lemma loopBody_balance:
  assumes "qcSpanNameFn c = Some nameFn"
    and "\<forall>(p, h) \<in> set (handlers c). \<forall>k ev. keeps same_consumer_metrics (h k ev)"
    and "loopBody L c d s = (Ok (), t)"
  shows "counters (metricsSt (lio t)) eventReceivedCounter ls + settledCount (metricsSt (lio s)) ls =
    counters (metricsSt (lio s)) eventReceivedCounter ls + settledCount (metricsSt (lio t)) ls"
proof (cases "rkh_get L (handlers c) (RoutingKey d)")
  case None
  with assms(3) show ?thesis
    by (auto simp: loopBody_unhandled settledCount_events)
      (auto simp: eventReceived_def routingKeyLabel_def incCounter_def)
next
  case (Some h)
  let ?s = "s\<lparr>lio := received c d (lio s)\<rparr>"
  let ?m = "eventReceived (queue c) (RoutingKey d) (metricsSt (lio s))"
  obtain r s2 where h: "h (deliveredCtx L c d (lio ?s)) (deliveredEvent L c d (lio ?s))
      (handlerReady L c nameFn d (lio ?s)) = (r, s2)" by fastforce
  from assms(3) Some have run: "handleDelivery L c h d (getDeliveryInfo (queue c) d) ?s = (Ok (), t)"
    by (simp add: loopBody_handled)
  obtain p where "(p, h) \<in> set (handlers c)" using rkh_get_member [OF Some] by blast
  with assms(2) have "keeps same_consumer_metrics (h (deliveredCtx L c d (lio ?s)) (deliveredEvent L c d (lio ?s)))"
    by auto
  from keepsD [OF this h] have m: "same_consumer_metrics (received c d (lio s)) s2"
    by (simp add: same_consumer_metrics_def handlerReady_def)
  have "r = Ok () \<or> (\<exists>e. r = Err e)"
    using handleDelivery_outcome(1) [where h = h, OF assms(1) h run] by (cases r) auto
  then obtain e where "r = Ok () \<or> r = Err e" by blast
  from settledCount_verdict(1) [OF this] have "settledCount (metricsSt (lio t)) ls =
      settledCount (metricsSt s2) ls + (if ls = [queue c, routingKeyLabel (metricsSt s2) (RoutingKey d)] then 1 else 0)"
    by (simp add: handleDelivery_outcome(3) [where h = h, OF assms(1) h run] deliveredInfo_def)
  moreover have "settledCount (metricsSt s2) ls = settledCount (metricsSt (lio s)) ls"
    "counters (metricsSt s2) eventReceivedCounter = counters ?m eventReceivedCounter"
    "routingKeyLabel (metricsSt s2) = routingKeyLabel (metricsSt (lio s))"
    using m by (auto simp: same_consumer_metrics_def settledCount_def received_def routingKeyLabel_def fun_eq_iff
        eventReceived_def incCounter_def)
  ultimately show ?thesis
    using handleDelivery_outcome(3) [where h = h, OF assms(1) h run]
    by (simp add: settledCount_verdict(2)) (simp add: eventReceived_def incCounter_def)
qed

text \<open>
  The consumer's counters balance. With handlers that do not touch these counters, a
  run of the loop that processes all its deliveries raises, for every label combination, the number of events
  received by as much as the numbers acknowledged, nacked, without handler and not parsable
  together: no delivery is counted twice or forgotten.
\<close>

lemma loop_metrics_balance:
  assumes "qcSpanNameFn c \<noteq> None"
    and "\<forall>(p, h) \<in> set (handlers c). \<forall>k ev. keeps same_consumer_metrics (h k ev)"
    and "loop L c ds s = (Ok (), t)"
  shows "counters (metricsSt (lio t)) eventReceivedCounter ls + settledCount (metricsSt (lio s)) ls =
    counters (metricsSt (lio s)) eventReceivedCounter ls + settledCount (metricsSt (lio t)) ls"
  using assms(3)
proof (induction ds arbitrary: s)
  case (Cons d ds)
  from assms(1) obtain nameFn where f: "qcSpanNameFn c = Some nameFn" by auto
  from Cons.prems obtain s1 where body: "loopBody L c d s = (Ok (), s1)" and rest: "loop L c ds s1 = (Ok (), t)"
    by (auto simp: loop_def bindM_Ok_iff)
  from loopBody_balance [OF f assms(2) body, of ls] Cons.IH [OF rest] show ?case by simp
qed (simp add: loop_def run_simps)

lemma loop_metrics_balance_witness:
  "counters (metricsSt (lio (snd (loop demoLib demoConsumer [demoDelivery 7 ''x''] \<lparr>lio = demoIO, settled = []\<rparr>))))
     eventReceivedCounter [''q'', ''x'']
   = settledCount (metricsSt (lio (snd (loop demoLib demoConsumer [demoDelivery 7 ''x''] \<lparr>lio = demoIO, settled = []\<rparr>)))) [''q'', ''x'']"
proof -
  let ?run = "loop demoLib demoConsumer [demoDelivery 7 ''x''] \<lparr>lio = demoIO, settled = []\<rparr>"
  have none: "rkh_get demoLib (handlers demoConsumer) ''x'' = None" by (simp add: demoConsumer_def)
  have "fst ?run = Ok ()"
    using none by (simp add: loop_def run_simps loopBody_unhandled demoDelivery_def)
  then have run: "?run = (Ok (), snd ?run)" by (metis prod.collapse)
  have keep: "\<forall>(p, h) \<in> set (handlers demoConsumer). \<forall>k ev. keeps same_consumer_metrics (h k ev)"
    by (simp add: demoConsumer_def same_consumer_metrics.keeps_return same_consumer_metrics.keeps_fail)
  from loop_metrics_balance [OF _ keep run, of "[''q'', ''x'']"] show ?thesis
    by (simp add: settledCount_def)
qed

end
