(* ===== verification/Headers_Model.thy ===== *)
theory Headers_Model
  imports Runtime
begin

text \<open>
  Message headers, \<open>headers.go\<close>: the reserved key, the validation of one header
  and of a whole table. The loop over the table visits it in the order of the association list;
  the accepted tables do not depend on that order.
\<close>

definition headerService :: string where
  "headerService = ''service''"

definition reservedHeaderKeys :: "string list" where
  "reservedHeaderKeys = [headerService]"

definition validateKey :: "header \<Rightarrow> goerr option" where
  "validateKey h =
     (if headerKey h = [] then Some ErrEmptyHeaderKey
      else if headerKey h \<in> set reservedHeaderKeys
      then Some (ErrText (''reserved key '' @ headerKey h @ '' used, please change to use another one''))
      else None)"

fun validateHeaders :: "table \<Rightarrow> goerr option" where
  "validateHeaders [] = None"
| "validateHeaders ((k, v) # h) =
     (case validateKey \<lparr>headerKey = k, headerValue = v\<rparr> of
        Some e \<Rightarrow> Some e
      | None \<Rightarrow> validateHeaders h)"

lemma validateKey_None [simp]:
  "validateKey h = None \<longleftrightarrow> headerKey h \<noteq> [] \<and> headerKey h \<noteq> headerService"
  by (simp add: validateKey_def reservedHeaderKeys_def)

lemma validateHeaders_None_iff:
  "validateHeaders m = None \<longleftrightarrow> [] \<notin> set (gokeys m) \<and> headerService \<notin> set (gokeys m)"
proof (induction m rule: validateHeaders.induct)
  case (2 k v h)
  then show ?case
    by (cases "validateKey \<lparr>headerKey = k, headerValue = v\<rparr>")
      (auto simp: validateKey_def reservedHeaderKeys_def split: if_splits)
qed simp

text \<open>
  Header validation accepts a table exactly when neither the empty key nor the
  reserved key \<open>service\<close> occurs in it, and this verdict does not depend on the order in which the
  loop visits the map.
\<close>

lemma validateHeaders_accepts:
  assumes "same_map m m'"
  shows "(validateHeaders m = None \<longleftrightarrow> map_of m [] = None \<and> map_of m headerService = None)
     \<and> (validateHeaders m = None \<longleftrightarrow> validateHeaders m' = None)"
proof -
  from assms have "set (gokeys m) = set (gokeys m')"
    by (simp add: same_map_set)
  then show ?thesis
    by (simp add: validateHeaders_None_iff map_of_eq_None_iff)
qed

lemma validateHeaders_accepts_witness:
  "validateHeaders [(''a'', GNil), (''service'', GStr ''p'')] \<noteq> None
   \<and> validateHeaders [(''service'', GStr ''p''), (''a'', GNil)] \<noteq> None"
proof -
  have h: "same_map [(''a'', GNil), (''service'', GStr ''p'')] [(''service'', GStr ''p''), (''a'', GNil)]"
    by (auto simp: same_map_def gomap_ok_def fun_eq_iff)
  from validateHeaders_accepts [OF h] show ?thesis
    by (simp add: validateKey_def reservedHeaderKeys_def headerService_def)
qed

end
