(* ===== verification/Queue_Config.thy ===== *)
theory Queue_Config
  imports Handler_Model Headers_Model
begin

text \<open>
  The configuration of a consumer's queue and binding, \<open>queue_binding_config.go\<close>, with the
  default queue arguments of \<open>connection.go\<close>. A \<open>ConsumerOptions\<close> value is a named function on the
  configuration that may fail; its name is what \<open>getQueueBindingConfigSetupFuncName\<close> reads from the
  runtime.
\<close>

record consumerConfig =
  cfgRoutingKey :: string
  cfgHandler :: wrappedHandler
  cfgQueueName :: string
  cfgExchangeName :: string
  cfgKind :: string
  cfgQueueHeaders :: table
  cfgQueueBindingHeaders :: table

record consumerOption =
  optionName :: string
  applyOption :: "consumerConfig \<Rightarrow> goerr + consumerConfig"

text \<open>\<open>5 * 24 * time.Hour\<close>, in seconds.\<close>

definition deleteQueueAfter :: int where
  "deleteQueueAfter = 5 * 24 * 3600"

definition defaultQueueOpts :: "lib \<Rightarrow> table" where
  "defaultQueueOpts L =
     [(QueueTypeArg L, GStr (QueueTypeQuorum L)),
      (SingleActiveConsumerArg L, GBool True),
      (QueueTTLArg L, GInt (deleteQueueAfter * 1000))]"

fun applyOptions :: "consumerOption list \<Rightarrow> consumerConfig \<Rightarrow> goerr + consumerConfig" where
  "applyOptions [] cfg = Inr cfg"
| "applyOptions (f # fs) cfg =
     (case applyOption f cfg of
        Inl e \<Rightarrow> Inl (ErrWrap (''consumer option <'' @ optionName f @ ''> failed: '') e)
      | Inr cfg' \<Rightarrow> applyOptions fs cfg')"

definition newConsumerConfig ::
  "lib \<Rightarrow> string \<Rightarrow> string \<Rightarrow> string \<Rightarrow> string \<Rightarrow> wrappedHandler \<Rightarrow> consumerOption list
     \<Rightarrow> goerr + consumerConfig" where
  "newConsumerConfig L routingKey exchangeName queueName kind handler opts =
     applyOptions opts
       \<lparr>cfgRoutingKey = routingKey, cfgHandler = handler, cfgQueueName = queueName,
        cfgExchangeName = exchangeName, cfgKind = kind, cfgQueueHeaders = defaultQueueOpts L,
        cfgQueueBindingHeaders = []\<rparr>"

definition AddQueueNameSuffix :: "string \<Rightarrow> consumerOption" where
  "AddQueueNameSuffix suffix =
     \<lparr>optionName = ''github.com/sparetimecoders/go-messaging-amqp.AddQueueNameSuffix.func1'',
      applyOption = (\<lambda>config. if suffix = [] then Inl ErrEmptySuffix
        else Inr (config\<lparr>cfgQueueName := cfgQueueName config @ ''-'' @ suffix\<rparr>))\<rparr>"

definition setQueueHeader :: "string \<Rightarrow> goval \<Rightarrow> consumerConfig \<Rightarrow> consumerConfig" where
  "setQueueHeader k v config = config\<lparr>cfgQueueHeaders := AList.update k v (cfgQueueHeaders config)\<rparr>"

definition DisableSingleActiveConsumer :: "lib \<Rightarrow> consumerOption" where
  "DisableSingleActiveConsumer L =
     \<lparr>optionName = ''github.com/sparetimecoders/go-messaging-amqp.DisableSingleActiveConsumer.func1'',
      applyOption = (\<lambda>config. Inr (setQueueHeader (SingleActiveConsumerArg L) (GBool False) config))\<rparr>"

definition WithDeadLetter :: "string \<Rightarrow> consumerOption" where
  "WithDeadLetter exch =
     \<lparr>optionName = ''github.com/sparetimecoders/go-messaging-amqp.WithDeadLetter.func1'',
      applyOption = (\<lambda>config. if exch = [] then Inl (ErrText ''dead letter exchange must not be empty'')
        else Inr (setQueueHeader ''x-dead-letter-exchange'' (GStr exch) config))\<rparr>"

definition WithDeadLetterRoutingKey :: "string \<Rightarrow> consumerOption" where
  "WithDeadLetterRoutingKey key =
     \<lparr>optionName = ''github.com/sparetimecoders/go-messaging-amqp.WithDeadLetterRoutingKey.func1'',
      applyOption = (\<lambda>config. Inr (setQueueHeader ''x-dead-letter-routing-key'' (GStr key) config))\<rparr>"


subsection \<open>Options keep what they do not set\<close>

text \<open>An option that changes at most the name and the arguments of the queue.\<close>

definition queue_option :: "consumerOption \<Rightarrow> bool" where
  "queue_option f \<longleftrightarrow> (\<forall>cfg cfg'. applyOption f cfg = Inr cfg' \<longrightarrow>
     cfgRoutingKey cfg' = cfgRoutingKey cfg \<and> cfgHandler cfg' = cfgHandler cfg
     \<and> cfgExchangeName cfg' = cfgExchangeName cfg \<and> cfgKind cfg' = cfgKind cfg
     \<and> cfgQueueBindingHeaders cfg' = cfgQueueBindingHeaders cfg)"

lemma library_queue_options [simp]:
  "queue_option (AddQueueNameSuffix suffix)" "queue_option (DisableSingleActiveConsumer L)"
  "queue_option (WithDeadLetter exch)" "queue_option (WithDeadLetterRoutingKey key)"
  by (auto simp: queue_option_def AddQueueNameSuffix_def DisableSingleActiveConsumer_def
      WithDeadLetter_def WithDeadLetterRoutingKey_def setQueueHeader_def)

lemma applyOptions_keep:
  "list_all queue_option opts \<Longrightarrow> applyOptions opts cfg = Inr cfg' \<Longrightarrow>
   cfgRoutingKey cfg' = cfgRoutingKey cfg \<and> cfgHandler cfg' = cfgHandler cfg
     \<and> cfgExchangeName cfg' = cfgExchangeName cfg \<and> cfgKind cfg' = cfgKind cfg
     \<and> cfgQueueBindingHeaders cfg' = cfgQueueBindingHeaders cfg"
  by (induction opts arbitrary: cfg) (auto simp: queue_option_def split: sum.splits)

lemma applyOptions_append:
  "applyOptions (fs @ gs) cfg =
     (case applyOptions fs cfg of Inl e \<Rightarrow> Inl e | Inr cfg' \<Rightarrow> applyOptions gs cfg')"
  by (induction fs arbitrary: cfg) (auto split: sum.split)

lemma newConsumerConfig_keeps:
  assumes "list_all queue_option opts" and "newConsumerConfig L rk ex q kind h opts = Inr cfg"
  shows "cfgRoutingKey cfg = rk" "cfgHandler cfg = h" "cfgExchangeName cfg = ex" "cfgKind cfg = kind"
    "cfgQueueBindingHeaders cfg = []"
  using applyOptions_keep [OF assms(1) assms(2) [unfolded newConsumerConfig_def]] by simp_all


subsection \<open>The configuration the options describe\<close>

text \<open>The options of the library as data, what each is, and what a list of them is to give.\<close>

datatype queueOpt = Suffix string | NoSingleActive | DeadLetter string | DeadLetterKey string

fun optionOf :: "lib \<Rightarrow> queueOpt \<Rightarrow> consumerOption" where
  "optionOf L (Suffix s) = AddQueueNameSuffix s"
| "optionOf L NoSingleActive = DisableSingleActiveConsumer L"
| "optionOf L (DeadLetter e) = WithDeadLetter e"
| "optionOf L (DeadLetterKey k) = WithDeadLetterRoutingKey k"

fun optFails :: "queueOpt \<Rightarrow> bool" where
  "optFails (Suffix s) = (s = [])"
| "optFails (DeadLetter e) = (e = [])"
| "optFails o' = False"

fun optSuffix :: "queueOpt \<Rightarrow> string" where
  "optSuffix (Suffix s) = ''-'' @ s"
| "optSuffix o' = []"

fun optArg :: "lib \<Rightarrow> queueOpt \<Rightarrow> (string \<times> goval) list" where
  "optArg L (Suffix s) = []"
| "optArg L NoSingleActive = [(SingleActiveConsumerArg L, GBool False)]"
| "optArg L (DeadLetter e) = [(''x-dead-letter-exchange'', GStr e)]"
| "optArg L (DeadLetterKey k) = [(''x-dead-letter-routing-key'', GStr k)]"

lemma applyOptions_spec:
  "list_all (\<lambda>o'. \<not> optFails o') os \<Longrightarrow>
   \<exists>cfg'. applyOptions (map (optionOf L) os) cfg = Inr cfg'
     \<and> cfgQueueName cfg' = cfgQueueName cfg @ concat (map optSuffix os)
     \<and> map_of (cfgQueueHeaders cfg') = map_of (cfgQueueHeaders cfg) ++ map_of (rev (concat (map (optArg L) os)))"
proof (induction os arbitrary: cfg)
  case (Cons o' os)
  then have IH: "\<exists>cfg'. applyOptions (map (optionOf L) os) c = Inr cfg'
     \<and> cfgQueueName cfg' = cfgQueueName c @ concat (map optSuffix os)
     \<and> map_of (cfgQueueHeaders cfg') = map_of (cfgQueueHeaders c) ++ map_of (rev (concat (map (optArg L) os)))" for c
    by simp
  obtain c where c: "applyOption (optionOf L o') cfg = Inr c" "cfgQueueName c = cfgQueueName cfg @ optSuffix o'"
    "map_of (cfgQueueHeaders c) = map_of (cfgQueueHeaders cfg) ++ map_of (optArg L o')"
    using Cons.prems
    by (cases o') (auto simp: AddQueueNameSuffix_def DisableSingleActiveConsumer_def WithDeadLetter_def
        WithDeadLetterRoutingKey_def setQueueHeader_def)
  have rev: "rev (optArg L o') = optArg L o'" by (cases o') auto
  from IH [of c] c show ?case by (auto simp: rev)
qed simp

lemma applyOptions_first_failure:
  "list_all (\<lambda>o'. \<not> optFails o') os \<Longrightarrow> optFails o' \<Longrightarrow>
   \<exists>e. applyOptions (map (optionOf L) (os @ o' # os')) cfg =
     Inl (ErrWrap (''consumer option <'' @ optionName (optionOf L o') @ ''> failed: '') e)"
  using applyOptions_spec [of os L cfg]
  by (cases o') (auto simp: applyOptions_append AddQueueNameSuffix_def WithDeadLetter_def)

text \<open>Options that are not ill-formed: the queue name and the queue arguments.\<close>

lemma options_are_queue_options: "list_all queue_option (map (optionOf L) os)"
  unfolding list_all_iff
proof
  fix f assume "f \<in> set (map (optionOf L) os)"
  then obtain o' where "f = optionOf L o'" by auto
  then show "queue_option f" by (cases o') simp_all
qed

lemma options_keep_expiry: "queue_args_ok L \<Longrightarrow> map_of (rev (concat (map (optArg L) os))) (QueueTTLArg L) = None"
proof -
  assume args: "queue_args_ok L"
  have "QueueTTLArg L \<notin> fst ` set (optArg L o')" for o'
    using args by (cases o') (auto simp: queue_args_ok_def)
  then show ?thesis by (auto simp: map_of_eq_None_iff)
qed

lemma newConsumerConfig_wellformed:
  assumes args: "queue_args_ok L" and ok: "list_all (\<lambda>o'. \<not> optFails o') os"
  obtains cfg where "newConsumerConfig L rk ex q kind h (map (optionOf L) os) = Inr cfg"
    "cfgQueueName cfg = q @ concat (map optSuffix os)"
    "map_of (cfgQueueHeaders cfg) = map_of (defaultQueueOpts L) ++ map_of (rev (concat (map (optArg L) os)))"
    "map_of (cfgQueueHeaders cfg) (QueueTTLArg L) = Some (GInt 432000000)"
proof -
  obtain cfg where cfg: "newConsumerConfig L rk ex q kind h (map (optionOf L) os) = Inr cfg"
    "cfgQueueName cfg = q @ concat (map optSuffix os)"
    "map_of (cfgQueueHeaders cfg) = map_of (defaultQueueOpts L) ++ map_of (rev (concat (map (optArg L) os)))"
    using applyOptions_spec [OF ok, of L "\<lparr>cfgRoutingKey = rk, cfgHandler = h, cfgQueueName = q,
        cfgExchangeName = ex, cfgKind = kind, cfgQueueHeaders = defaultQueueOpts L, cfgQueueBindingHeaders = []\<rparr>"]
    by (auto simp: newConsumerConfig_def)
  moreover have "map_of (cfgQueueHeaders cfg) (QueueTTLArg L) = Some (GInt 432000000)"
    using args options_keep_expiry [OF args, of os]
    by (auto simp: cfg(3) map_add_def defaultQueueOpts_def queue_args_ok_def deleteQueueAfter_def)
  ultimately show thesis by (rule that)
qed



end
