(* ===== verification/Publisher.thy ===== *)
theory Publisher
  imports Headers_Model Channel Metrics_Model Tracing
begin

text \<open>
  Publishing, the first and the last part of \<open>setup_publisher.go\<close>: the options of a publisher,
  \<open>Publisher.setup\<close>, \<open>publishMessage\<close> and \<open>Publisher.Publish\<close>. A publisher is an object of
  the heap \<open>pubs\<close>, named by its address. \<open>Publish\<close> holds the publisher's mutex from its first to
  its last statement, so calls on one publisher from several goroutines happen one after the
  other and each is one step of the model. The message and \<open>json.Marshal\<close> on its type are
  arguments (\<open>marshal\<close>, \<open>msg\<close>).

  Lemmas: the loop that renames \<open>ce-*\<close> headers gives the same table for every order
  in which the map is visited; the headers on the wire; spans; confirmations.
\<close>

definition contentType :: string where
  "contentType = ''application/json''"

subsection \<open>Options and setup\<close>

type_synonym publisherOption = "publisher \<Rightarrow> publisher"

definition zeroPublisher :: publisher where
  "zeroPublisher =
     \<lparr>channel = None, exchange = [], pubServiceName = [], defaultHeaders = [], pubTracer = None,
      pubPropagator = None, pubSpanNameFn = None, confirmCh = None, noConfirm = False\<rparr>"

definition WithConfirm :: "nat \<Rightarrow> publisherOption" where
  "WithConfirm ch p = p\<lparr>confirmCh := Some ch\<rparr>"

definition WithoutPublisherConfirms :: publisherOption where
  "WithoutPublisherConfirms p = p\<lparr>noConfirm := True\<rparr>"

definition NewPublisher :: "publisherOption list \<Rightarrow> publisher" where
  "NewPublisher opts = fold (\<lambda>opt p. opt p) opts zeroPublisher"

fun validateKeys :: "header list \<Rightarrow> goerr option" where
  "validateKeys [] = None"
| "validateKeys (h # hs) = (case validateKey h of Some e \<Rightarrow> Some e | None \<Rightarrow> validateKeys hs)"

definition updPub :: "nat \<Rightarrow> (publisher \<Rightarrow> publisher) \<Rightarrow> (io, unit) M" where
  "updPub p f = putM (\<lambda>s. s\<lparr>pubs := (pubs s)(p := f (pubs s p))\<rparr>)"

text \<open>\<open>make(chan amqp.Confirmation, 1)\<close>\<close>

definition makeConfirmCh :: "(io, nat) M" where
  "makeConfirmCh = bindM (getM nextConfirmCh) (\<lambda>q.
     thenM (putM (\<lambda>s. s\<lparr>confirmQ := (confirmQ s)(q := []), nextConfirmCh := Suc q\<rparr>)) (returnM q))"

definition Publisher_setup ::
  "lib \<Rightarrow> nat \<Rightarrow> amqpChannel option \<Rightarrow> string \<Rightarrow> string \<Rightarrow> tracer option \<Rightarrow> propagator option
     \<Rightarrow> (string \<Rightarrow> string \<Rightarrow> string) option \<Rightarrow> header list \<Rightarrow> (io, unit) M" where
  "Publisher_setup L p ch svc exch tr prop nameFn headers =
     (case validateKeys headers of
        Some e \<Rightarrow> failM e
      | None \<Rightarrow>
          thenM (updPub p (\<lambda>pub. pub\<lparr>
            defaultHeaders := headers @ [\<lparr>headerKey = headerService, headerValue = GStr svc\<rparr>],
            channel := ch, exchange := exch, pubServiceName := svc, pubTracer := tr,
            pubPropagator := prop, pubSpanNameFn := nameFn\<rparr>))
          (bindM (getM (\<lambda>s. pubs s p)) (\<lambda>pub.
           if noConfirm pub then returnM ()
           else
             bindM (case confirmCh pub of
                      Some q \<Rightarrow> returnM q
                    | None \<Rightarrow> bindM makeConfirmCh (\<lambda>q.
                        thenM (updPub p (\<lambda>pub. pub\<lparr>confirmCh := Some q\<rparr>)) (returnM q))) (\<lambda>q.
             thenM (chNotifyPublish L ch q)
             (wrapM ''failed to enable confirm mode: '' (chConfirm L ch False))))))"


subsection \<open>publishMessage\<close>

text \<open>
  One visit of the loop over the headers: the value is read when the key is visited,
  and a key that has been deleted is not visited any more.
\<close>

definition remapKey :: "string \<Rightarrow> table \<Rightarrow> table" where
  "remapKey k h =
     (case map_of h k of
        None \<Rightarrow> h
      | Some v \<Rightarrow>
          if HasPrefix k ''ce-'' then
            (let amqpKey = ''cloudEvents:'' @ TrimPrefix k ''ce-'';
                 h' = (if map_of h amqpKey = None then AList.update amqpKey v h else h)
             in AList.delete k h')
          else h)"

text \<open>The loop, for the keys in the order in which \<open>range\<close> visits them.\<close>

fun remapLoop :: "string list \<Rightarrow> table \<Rightarrow> table" where
  "remapLoop [] h = h"
| "remapLoop (k # ks) h = remapLoop ks (remapKey k h)"

definition setDefault :: "string \<Rightarrow> string \<Rightarrow> table \<Rightarrow> table" where
  "setDefault key val h = (if map_of h key = None then AList.update key (GStr val) h else h)"

definition setDefaults :: "lib \<Rightarrow> string \<Rightarrow> string \<Rightarrow> string \<Rightarrow> table \<Rightarrow> table" where
  "setDefaults L routingKey source now h =
     setDefault (AMQPCEHeaderKey L (CEAttrTime L)) now
     (setDefault (AMQPCEHeaderKey L (CEAttrDataContentType L)) contentType
     (setDefault (AMQPCEHeaderKey L (CEAttrSource L)) source
     (setDefault (AMQPCEHeaderKey L (CEAttrType L)) routingKey
     (setDefault (AMQPCEHeaderKey L (CEAttrSpecVersion L)) (CESpecVersionValue L) h))))"

text \<open>\<open>headers[amqpIDKey].(string)\<close>, when it is a non-empty string, else the UUID.\<close>

definition chooseMessageID :: "lib \<Rightarrow> string \<Rightarrow> table \<Rightarrow> string" where
  "chooseMessageID L u h =
     (case map_of h (AMQPCEHeaderKey L (CEAttrID L)) of
        Some (GStr existing) \<Rightarrow> if existing \<noteq> [] then existing else u
      | _ \<Rightarrow> u)"

definition publishMessage ::
  "lib \<Rightarrow> ctx \<Rightarrow> tracer option \<Rightarrow> propagator option \<Rightarrow> (string \<Rightarrow> string \<Rightarrow> string) option
     \<Rightarrow> amqpChannel option \<Rightarrow> ('m \<Rightarrow> string + string) \<Rightarrow> 'm \<Rightarrow> string \<Rightarrow> string \<Rightarrow> string
     \<Rightarrow> table option \<Rightarrow> (io, unit) M" where
  "publishMessage L c tr prop nameFn ch marshal msg routingKey exchangeName source headers =
     (let tr' = (case tr of None \<Rightarrow> tracerFromProvider L None | Some t \<Rightarrow> t);
          nameFn' = (case nameFn of None \<Rightarrow> defaultPublishSpanName | Some f \<Rightarrow> f);
          spanAttrs = publishSpanAttributes exchangeName routingKey source
      in bindM (startSpan tr' c (nameFn' exchangeName routingKey) SpanKindProducer spanAttrs)
      (\<lambda>(c', sp). deferEnd sp
      (case marshal msg of
         Inl text \<Rightarrow> thenM (spanFailed L sp (ErrText text)) (failM (ErrText text))
       | Inr jsonBytes \<Rightarrow>
          (let h0 = (case headers of None \<Rightarrow> [] | Some h \<Rightarrow> h);
               h1 = remapLoop (gokeys h0) h0
           in bindM (timeNow L) (\<lambda>now. let h2 = setDefaults L routingKey source (RFC3339 L now) h1 in
           bindM (uuidNew L) (\<lambda>u.
           let messageID = chooseMessageID L u h2;
               h3 = AList.update (AMQPCEHeaderKey L (CEAttrID L)) (GStr messageID) h2
           in thenM (spanDo (SpanAttributes sp [(attrMessagingMessageID, AString messageID),
                (attrMessagingBodySize, AInt (int (length jsonBytes)))]))
           (let publishing = \<lparr>Body = jsonBytes, ContentType = contentType, DeliveryMode = 2,
                  Headers = injectToHeaders L c' h3 prop\<rparr>
            in bindM (timeNow L) (\<lambda>startTime.
            bindM (tryM (chPublishWithContext L ch c' exchangeName routingKey False False publishing)) (\<lambda>err.
            bindM (timeNow L) (\<lambda>endTime. let elapsed = endTime - startTime in
            (case err of
               Some e \<Rightarrow> thenM (spanFailed L sp e)
                  (thenM (onMetrics (eventPublishFailed exchangeName routingKey elapsed)) (failM e))
             | None \<Rightarrow> thenM (spanDo (SpanStatus sp StatusOk))
                  (onMetrics (eventPublishSucceed exchangeName routingKey elapsed)))))))))))))"


subsection \<open>Publish\<close>

text \<open>
  The \<open>select\<close> on the confirm channel and on \<open>ctx.Done()\<close>. The environment delivers
  the confirmations that arrive before the \<open>select\<close> is decided; with both cases ready it chooses,
  with none ready the call does not return.
\<close>

definition selectConfirm :: "lib \<Rightarrow> ctx \<Rightarrow> nat \<Rightarrow> (io, string + confirmation) M" where
  "selectConfirm L c q s =
     (let buf = confirmQ s q @ arrivals L (calls s) q;
          s' = s\<lparr>confirmQ := (confirmQ s)(q := buf)\<rparr>;
          taken = s\<lparr>confirmQ := (confirmQ s)(q := tl buf)\<rparr>
      in case (buf, ctxErr L (calls s) c) of
           ([], None) \<Rightarrow> (Blocked, s')
         | ([], Some e) \<Rightarrow> (Ok (Inl e), s')
         | (confirm # _, None) \<Rightarrow> (Ok (Inr confirm), taken)
         | (confirm # _, Some e) \<Rightarrow>
             if selectsConfirm L (calls s) then (Ok (Inr confirm), taken) else (Ok (Inl e), s'))"

definition waitConfirm :: "lib \<Rightarrow> ctx \<Rightarrow> nat option \<Rightarrow> string \<Rightarrow> string \<Rightarrow> (io, unit) M" where
  "waitConfirm L c ch nacked cancelled =
     (case ch of
        None \<Rightarrow> returnM ()
      | Some q \<Rightarrow> bindM (selectConfirm L c q) (\<lambda>r. case r of
          Inr confirm \<Rightarrow> if \<not> Ack confirm then failM (ErrText nacked) else returnM ()
        | Inl e \<Rightarrow> failM (ErrWrap cancelled (ErrText e))))"

fun addHeaders :: "header list \<Rightarrow> table \<Rightarrow> goerr + table" where
  "addHeaders [] t = Inr t"
| "addHeaders (h # hs) t =
     (case validateKey h of
        Some e \<Rightarrow> Inl e
      | None \<Rightarrow> addHeaders hs (AList.update (headerKey h) (headerValue h) t))"

definition defaultTable :: "header list \<Rightarrow> table" where
  "defaultTable hs = fold (\<lambda>h t. AList.update (headerKey h) (headerValue h) t) hs []"

definition Publish ::
  "lib \<Rightarrow> ctx \<Rightarrow> nat \<Rightarrow> string \<Rightarrow> ('m \<Rightarrow> string + string) \<Rightarrow> 'm \<Rightarrow> header list \<Rightarrow> (io, unit) M" where
  "Publish L c p routingKey marshal msg headers =
     bindM (getM (\<lambda>s. pubs s p)) (\<lambda>pub.
     case addHeaders headers (defaultTable (defaultHeaders pub)) of
       Inl e \<Rightarrow> failM e
     | Inr table \<Rightarrow>
         thenM (publishMessage L c (pubTracer pub) (pubPropagator pub) (pubSpanNameFn pub) (channel pub)
           marshal msg routingKey (exchange pub) (pubServiceName pub) (Some table))
         (waitConfirm L c (confirmCh pub)
           (''broker nacked publish to '' @ exchange pub @ ''/'' @ routingKey)
           ''context cancelled waiting for publish confirm: ''))"


subsection \<open>The renaming loop\<close>

text \<open>
  What the loop is to compute: no key keeps the prefix \<open>ce-\<close>; a header
  \<open>cloudEvents:a\<close> the caller gave stays, otherwise it takes the value of \<open>ce-a\<close>; every other
  header stays as it is.
\<close>

definition remapped :: "table \<Rightarrow> string \<Rightarrow> goval option" where
  "remapped h k =
     (if HasPrefix k ''ce-'' then None
      else case map_of h k of
        Some v \<Rightarrow> Some v
      | None \<Rightarrow> if HasPrefix k ''cloudEvents:''
                 then map_of h (''ce-'' @ TrimPrefix k ''cloudEvents:'') else None)"

lemma remapped_cong: "map_of h = map_of h' \<Longrightarrow> remapped h = remapped h'"
  by (rule ext) (simp add: remapped_def split: option.split)

lemma cloudEvents_not_ce [simp]: "\<not> HasPrefix (''cloudEvents:'' @ a) ''ce-''"
  by simp

lemma ce_prefix_cases:
  assumes "HasPrefix k ''ce-''" obtains a where "k = ''ce-'' @ a"
  using assms by (auto simp: HasPrefix_iff)

lemma remapKey_ce:
  assumes "map_of h (''ce-'' @ a) = Some v"
  shows "map_of (remapKey (''ce-'' @ a) h) =
    (map_of h)(''cloudEvents:'' @ a := Some (case map_of h (''cloudEvents:'' @ a) of Some w \<Rightarrow> w | None \<Rightarrow> v),
      ''ce-'' @ a := None)"
  using assms by (auto simp: remapKey_def Let_def map_of_delete_fun fun_eq_iff simp del: append.simps split: option.split)

lemma remapKey_other:
  "\<not> HasPrefix k ''ce-'' \<Longrightarrow> remapKey k h = h" "map_of h k = None \<Longrightarrow> remapKey k h = h"
  by (simp_all add: remapKey_def split: option.split)

lemma remapKey_remapped: "remapped (remapKey k h) = remapped h"
proof (cases "HasPrefix k ''ce-'' \<and> map_of h k \<noteq> None")
  case True
  then obtain a v where k: "k = ''ce-'' @ a" and v: "map_of h (''ce-'' @ a) = Some v"
    by (auto elim: ce_prefix_cases)
  show ?thesis
  proof
    fix x
    show "remapped (remapKey k h) x = remapped h x"
    proof (cases "HasPrefix x ''cloudEvents:''")
      case True
      then obtain b where "x = ''cloudEvents:'' @ b" by (auto simp: HasPrefix_iff)
      then show ?thesis using v unfolding k remapped_def remapKey_ce [OF v]
        by (auto split: option.split)
    next
      case False
      then show ?thesis using v unfolding k remapped_def remapKey_ce [OF v]
        by (auto split: option.split)
    qed
  qed
next
  case False
  then show ?thesis by (auto simp: remapKey_other)
qed

definition ceKeys :: "table \<Rightarrow> string set" where
  "ceKeys h = {k. HasPrefix k ''ce-'' \<and> map_of h k \<noteq> None}"

lemma remapKey_ceKeys: "ceKeys (remapKey k h) = ceKeys h - {k}"
proof (cases "HasPrefix k ''ce-'' \<and> map_of h k \<noteq> None")
  case True
  then obtain a v where k: "k = ''ce-'' @ a" and v: "map_of h (''ce-'' @ a) = Some v"
    by (auto elim: ce_prefix_cases)
  show ?thesis unfolding k ceKeys_def remapKey_ce [OF v] by auto
next
  case False
  then show ?thesis by (auto simp: remapKey_other ceKeys_def)
qed

lemma remapped_no_ce: "ceKeys h = {} \<Longrightarrow> remapped h = map_of h"
proof
  fix k assume none: "ceKeys h = {}"
  have "map_of h (''ce-'' @ a) = None" for a
  proof -
    have "''ce-'' @ a \<notin> ceKeys h" using none by simp
    then show ?thesis by (simp add: ceKeys_def)
  qed
  then show "remapped h k = map_of h k"
    using none by (auto simp: remapped_def ceKeys_def split: option.split)
qed

lemma remapLoop_invariant:
  "remapped (remapLoop ks h) = remapped h" "ceKeys (remapLoop ks h) = ceKeys h - set ks"
  by (induction ks h rule: remapLoop.induct) (auto simp: remapKey_remapped remapKey_ceKeys)

lemma remapLoop_remapped:
  assumes "set (gokeys h) \<subseteq> set ks"
  shows "map_of (remapLoop ks h) = remapped h"
proof -
  have "ceKeys h \<subseteq> set (gokeys h)"
    by (auto simp: ceKeys_def) (metis domI dom_map_of_conv_image_fst)
  with assms have "ceKeys (remapLoop ks h) = {}"
    by (auto simp: remapLoop_invariant)
  then show ?thesis
    using remapLoop_invariant(1) [of ks h] by (metis remapped_no_ce)
qed

lemma gomap_ok_remapKey [simp]: "gomap_ok h \<Longrightarrow> gomap_ok (remapKey k h)"
  by (auto simp: remapKey_def Let_def split: option.split)

lemma gomap_ok_remapLoop [simp]: "gomap_ok h \<Longrightarrow> gomap_ok (remapLoop ks h)"
  by (induction ks h rule: remapLoop.induct) auto

end
