(* ===== verification/Publisher_Wire.thy ===== *)
theory Publisher_Wire
  imports Publisher
begin

text \<open>
  What \<open>publishMessage\<close> puts on the wire, and what it leaves behind on every path: the
  headers of the message against a specification by cases (\<open>wireHeader\<close>), the one call
  on the channel, the metrics and the span.
\<close>

definition idKey :: "lib \<Rightarrow> string" where
  "idKey L = AMQPCEHeaderKey L (CEAttrID L)"

text \<open>The defaults, by attribute.\<close>

definition wireDefaults :: "lib \<Rightarrow> string \<Rightarrow> string \<Rightarrow> string \<Rightarrow> (string \<times> string) list" where
  "wireDefaults L routingKey source now =
     [(AMQPCEHeaderKey L (CEAttrSpecVersion L), CESpecVersionValue L),
      (AMQPCEHeaderKey L (CEAttrType L), routingKey),
      (AMQPCEHeaderKey L (CEAttrSource L), source),
      (AMQPCEHeaderKey L (CEAttrDataContentType L), ''application/json''),
      (AMQPCEHeaderKey L (CEAttrTime L), now)]"

definition wireID :: "lib \<Rightarrow> string \<Rightarrow> table \<Rightarrow> string" where
  "wireID L u h =
     (case remapped h (idKey L) of
        Some (GStr e) \<Rightarrow> if e = [] then u else e
      | _ \<Rightarrow> u)"

text \<open>
  The specification: the message ID is the caller's non-empty string or a fresh UUID; any other
  header is the caller's (under its name on the wire) or else the default.
\<close>

definition wireHeader ::
  "lib \<Rightarrow> string \<Rightarrow> string \<Rightarrow> string \<Rightarrow> string \<Rightarrow> table \<Rightarrow> string \<Rightarrow> goval option" where
  "wireHeader L routingKey source now u h k =
     (if k = idKey L then Some (GStr (wireID L u h))
      else case remapped h k of
        Some v \<Rightarrow> Some v
      | None \<Rightarrow> map_option GStr (map_of (wireDefaults L routingKey source now) k))"

definition wireTable :: "lib \<Rightarrow> string \<Rightarrow> string \<Rightarrow> string \<Rightarrow> string \<Rightarrow> table \<Rightarrow> table" where
  "wireTable L routingKey source now u h =
     (let h2 = setDefaults L routingKey source now (remapLoop (gokeys h) h)
      in AList.update (AMQPCEHeaderKey L (CEAttrID L)) (GStr (chooseMessageID L u h2)) h2)"

lemma map_of_setDefault:
  "map_of (setDefault k v h) x =
     (case map_of h x of Some w \<Rightarrow> Some w | None \<Rightarrow> if x = k then Some (GStr v) else None)"
  by (auto simp: setDefault_def split: option.split)

lemma map_of_fold_setDefault:
  "map_of (fold (\<lambda>(k, v). setDefault k v) ds h) x =
     (case map_of h x of Some w \<Rightarrow> Some w | None \<Rightarrow> map_option GStr (map_of ds x))"
  by (induction ds arbitrary: h) (auto simp: map_of_setDefault split: option.split)

lemma map_of_setDefaults:
  "map_of (setDefaults L rk src now h) x =
     (case map_of h x of Some w \<Rightarrow> Some w
      | None \<Rightarrow> map_option GStr (map_of (wireDefaults L rk src now) x))"
proof -
  have "setDefaults L rk src now h = fold (\<lambda>(k, v). setDefault k v) (wireDefaults L rk src now) h"
    by (simp add: setDefaults_def wireDefaults_def contentType_def)
  then show ?thesis by (simp only: map_of_fold_setDefault)
qed

lemma idKey_no_default:
  assumes "ce_wire_format L"
  shows "map_of (wireDefaults L rk src now) (idKey L) = None"
proof -
  have "CEAttrID L \<notin> {CEAttrSpecVersion L, CEAttrType L, CEAttrSource L, CEAttrDataContentType L, CEAttrTime L}"
    using assms by (auto simp: ce_wire_format_def ce_attrs_def)
  with assms show ?thesis by (simp add: ce_wire_format_def wireDefaults_def idKey_def)
qed

lemma wireTable_wireHeader:
  assumes "ce_wire_format L"
  shows "map_of (wireTable L rk src now u h) = wireHeader L rk src now u h"
proof
  fix x
  have loop: "map_of (remapLoop (gokeys h) h) = remapped h"
    by (simp add: remapLoop_remapped)
  have "chooseMessageID L u (setDefaults L rk src now (remapLoop (gokeys h) h)) = wireID L u h"
    using idKey_no_default [OF assms]
    by (auto simp: chooseMessageID_def wireID_def map_of_setDefaults loop
        simp flip: idKey_def split: option.split goval.split)
  then show "map_of (wireTable L rk src now u h) x = wireHeader L rk src now u h x"
    by (simp add: wireTable_def Let_def wireHeader_def map_of_setDefaults loop flip: idKey_def)
qed

lemma gomap_ok_setDefault [simp]: "gomap_ok h \<Longrightarrow> gomap_ok (setDefault k v h)"
  by (simp add: setDefault_def)

lemma gomap_ok_wireTable [simp]: "gomap_ok h \<Longrightarrow> gomap_ok (wireTable L rk src now u h)"
  by (simp add: wireTable_def Let_def setDefaults_def)


subsection \<open>The runs of publishMessage\<close>

definition tableOf :: "table option \<Rightarrow> table" where
  "tableOf headers = (case headers of None \<Rightarrow> [] | Some h \<Rightarrow> h)"

text \<open>The message handed to the channel in state \<open>s\<close>.\<close>

definition wireMessage ::
  "lib \<Rightarrow> io \<Rightarrow> ctx \<Rightarrow> propagator option \<Rightarrow> string \<Rightarrow> string \<Rightarrow> string \<Rightarrow> table \<Rightarrow> publishing" where
  "wireMessage L s c prop rk src body h =
     \<lparr>Body = body, ContentType = contentType, DeliveryMode = 2,
      Headers = injectToHeaders L (SpanCtx c (nextSpan s))
        (wireTable L rk src (RFC3339 L (clock L (ticks s))) (newUUID L (uuids s)) h) prop\<rparr>"

text \<open>The state when the span has its attributes and the channel is called.\<close>

definition readyToPublish ::
  "lib \<Rightarrow> ctx \<Rightarrow> tracer option \<Rightarrow> (string \<Rightarrow> string \<Rightarrow> string) option \<Rightarrow> string \<Rightarrow> string \<Rightarrow> string
     \<Rightarrow> string \<Rightarrow> table \<Rightarrow> io \<Rightarrow> io" where
  "readyToPublish L c tr nameFn rk ex src body h s =
     (let u = newUUID L (uuids s);
          h2 = setDefaults L rk src (RFC3339 L (clock L (ticks s))) (remapLoop (gokeys h) h)
      in s\<lparr>nextSpan := Suc (nextSpan s), uuids := Suc (uuids s),
           spanLog := spanLog s @
             [SpanStart (nextSpan s) (case tr of None \<Rightarrow> tracerFromProvider L None | Some t \<Rightarrow> t) c
                ((case nameFn of None \<Rightarrow> defaultPublishSpanName | Some f \<Rightarrow> f) ex rk)
                SpanKindProducer (publishSpanAttributes ex rk src),
              SpanAttributes (nextSpan s)
                [(attrMessagingMessageID, AString (chooseMessageID L u h2)),
                 (attrMessagingBodySize, AInt (int (length body)))]],
           ticks := Suc (Suc (ticks s))\<rparr>)"

lemma publishMessage_run:
  assumes "marshal msg = Inr body"
  shows "publishMessage L c tr prop nameFn ch marshal msg rk ex src headers s =
    deferEnd (nextSpan s)
     (bindM (tryM (chPublishWithContext L ch (SpanCtx c (nextSpan s)) ex rk False False
        (wireMessage L s c prop rk src body (tableOf headers)))) (\<lambda>err.
      bindM (timeNow L) (\<lambda>endTime. let elapsed = endTime - clock L (Suc (ticks s)) in
      case err of
        Some e \<Rightarrow> thenM (spanFailed L (nextSpan s) e)
          (thenM (onMetrics (eventPublishFailed ex rk elapsed)) (failM e))
      | None \<Rightarrow> thenM (spanDo (SpanStatus (nextSpan s) StatusOk))
          (onMetrics (eventPublishSucceed ex rk elapsed)))))
     (readyToPublish L c tr nameFn rk ex src body (tableOf headers) s)"
  using assms
  by (simp add: publishMessage_def Let_def wireMessage_def wireTable_def readyToPublish_def tableOf_def
      deferEnd_run bindM_Ok [OF startSpan_run] bindM_Ok [OF timeNow_run] bindM_Ok [OF uuidNew_run]
      bindM_Ok [OF spanDo_run] cong del: option.case_cong_weak)

lemma publishMessage_marshal_error:
  assumes "marshal msg = Inl text"
  shows "publishMessage L c tr prop nameFn ch marshal msg rk ex src headers s =
    (Err (ErrText text),
     s\<lparr>nextSpan := Suc (nextSpan s),
       spanLog := spanLog s @
        [SpanStart (nextSpan s) (case tr of None \<Rightarrow> tracerFromProvider L None | Some t \<Rightarrow> t) c
           ((case nameFn of None \<Rightarrow> defaultPublishSpanName | Some f \<Rightarrow> f) ex rk)
           SpanKindProducer (publishSpanAttributes ex rk src),
         SpanError (nextSpan s) (ErrText text), SpanStatus (nextSpan s) (StatusError text),
         SpanEnd (nextSpan s)]\<rparr>)"
  using assms by (simp add: publishMessage_def run_simps Let_def)

lemma readyToPublish_frame [simp]:
  "calls (readyToPublish L c tr nameFn rk ex src body h s) = calls s"
  "metricsSt (readyToPublish L c tr nameFn rk ex src body h s) = metricsSt s"
  "confirmQ (readyToPublish L c tr nameFn rk ex src body h s) = confirmQ s"
  "pubs (readyToPublish L c tr nameFn rk ex src body h s) = pubs s"
  "core (readyToPublish L c tr nameFn rk ex src body h s) = core s"
  "ticks (readyToPublish L c tr nameFn rk ex src body h s) = Suc (Suc (ticks s))"
  by (simp_all add: readyToPublish_def Let_def)

text \<open>The outcomes on an open channel, with all they change that others can see.\<close>

definition publishCall ::
  "lib \<Rightarrow> io \<Rightarrow> ctx \<Rightarrow> propagator option \<Rightarrow> string \<Rightarrow> string \<Rightarrow> string \<Rightarrow> string \<Rightarrow> table \<Rightarrow> nat \<Rightarrow> amqpCall"
  where
  "publishCall L s c prop rk ex src body h n =
     PublishWithContext n (SpanCtx c (nextSpan s)) ex rk False False (wireMessage L s c prop rk src body h)"

definition publishElapsed :: "lib \<Rightarrow> io \<Rightarrow> int" where
  "publishElapsed L s = clock L (Suc (Suc (ticks s))) - clock L (Suc (ticks s))"

lemma publishMessage_on_channel:
  assumes "marshal msg = Inr body"
    and "publishMessage L c tr prop nameFn (Some (AmqpChannel n)) marshal msg rk ex src headers s = (r, t)"
  shows "r = (case amqpErr L (calls s) (publishCall L s c prop rk ex src body (tableOf headers) n) of
        None \<Rightarrow> Ok () | Some e \<Rightarrow> Err (ErrText e))"
    and "calls t = calls s @ [publishCall L s c prop rk ex src body (tableOf headers) n]"
    and "metricsSt t = (if r = Ok () then eventPublishSucceed ex rk (publishElapsed L s) (metricsSt s)
      else eventPublishFailed ex rk (publishElapsed L s) (metricsSt s))"
    and "confirmQ t = confirmQ s" and "pubs t = pubs s" and "core t = core s"
  using assms
  by (cases "amqpErr L (calls s) (publishCall L s c prop rk ex src body (tableOf headers) n)";
      auto simp: publishMessage_run run_simps channel_op_defs Let_def publishCall_def
        publishElapsed_def)+

lemma publishMessage_nil_channel:
  assumes "marshal msg = Inr body"
  shows "fst (publishMessage L c tr prop nameFn None marshal msg rk ex src headers s) = Panic nilDereference"
  using assms by (simp add: publishMessage_run run_simps channel_op_defs)


subsection \<open>Properties\<close>

text \<open>
  C4: the wire format. A successful \<open>publishMessage\<close> makes exactly one call on the channel:
  a persistent JSON message with the marshalled body, to the given exchange and routing key. Apart
  from the fields of the trace propagator, every header is the one the specification
  \<open>wireHeader\<close> gives: a \<open>cloudEvents:a\<close> header of the caller, else its \<open>ce-a\<close> header, else the
  default of the attribute; the message ID is the caller's or a fresh UUID; no \<open>ce-\<close> header is left.
\<close>

theorem publishMessage_wire_format:
  assumes lib: "ce_wire_format L" "propagates_fields (propagatorOrGlobal L prop) F"
    and run: "publishMessage L c tr prop nameFn (Some (AmqpChannel n)) marshal msg rk ex src headers s = (Ok (), t)"
  shows "\<exists>m. marshal msg = Inr (Body m)
      \<and> calls t = calls s @ [PublishWithContext n (SpanCtx c (nextSpan s)) ex rk False False m]
      \<and> ContentType m = ''application/json'' \<and> DeliveryMode m = 2
      \<and> (\<forall>k. k \<notin> F \<longrightarrow> map_of (Headers m) k =
            wireHeader L rk src (RFC3339 L (clock L (ticks s))) (newUUID L (uuids s)) (tableOf headers) k)
      \<and> (\<forall>k. k \<notin> F \<longrightarrow> HasPrefix k ''ce-'' \<longrightarrow> map_of (Headers m) k = None)"
proof -
  from run obtain body where body: "marshal msg = Inr body"
    by (cases "marshal msg") (auto simp: publishMessage_marshal_error)
  let ?m = "wireMessage L s c prop rk src body (tableOf headers)"
  have head: "map_of (Headers ?m) k =
      wireHeader L rk src (RFC3339 L (clock L (ticks s))) (newUUID L (uuids s)) (tableOf headers) k"
    if "k \<notin> F" for k
    using that by (simp add: wireMessage_def inject_other [OF lib(2)] wireTable_wireHeader [OF lib(1)])
  moreover have "wireHeader L rk src now u h k = None" if "HasPrefix k ''ce-''" for k now u h
    using that lib(1)
    by (auto simp: wireHeader_def remapped_def idKey_def wireDefaults_def ce_wire_format_def
        HasPrefix_iff)
  moreover have "calls t = calls s @ [PublishWithContext n (SpanCtx c (nextSpan s)) ex rk False False ?m]"
    using publishMessage_on_channel(2) [OF body run] by (simp add: publishCall_def)
  ultimately show ?thesis
    using body by (intro exI [of _ ?m]) (simp add: wireMessage_def contentType_def)
qed

theorem publishMessage_wire_format_witness:
  "\<exists>m t. publishMessage demoLib Background None None None (Some (AmqpChannel 0)) Inr ''{}'' ''Order.Created''
       ''events.topic.exchange'' ''svc'' (Some [(''ce-type'', GStr ''T'')]) demoIO = (Ok (), t)
     \<and> calls t = [PublishWithContext 0 (SpanCtx Background 0) ''events.topic.exchange'' ''Order.Created''
         False False m]
     \<and> map_of (Headers m) ''cloudEvents:type'' = Some (GStr ''T'')
     \<and> map_of (Headers m) ''cloudEvents:source'' = Some (GStr ''svc'')"
proof -
  let ?run = "publishMessage demoLib Background None None None (Some (AmqpChannel 0)) Inr ''{}'' ''Order.Created''
       ''events.topic.exchange'' ''svc'' (Some [(''ce-type'', GStr ''T'')]) demoIO"
  have ok: "fst ?run = Ok ()"
    by (simp add: publishMessage_run run_simps channel_op_defs demoLib_def Let_def)
  then have run: "?run = (Ok (), snd ?run)" by (metis prod.collapse)
  have pf: "propagates_fields (propagatorOrGlobal demoLib None) {''traceparent''}"
    using traceparentPropagator_fields by (simp add: propagatorOrGlobal_def demoLib_def)
  from publishMessage_wire_format [OF demoLib_ce pf run]
  obtain m where m: "calls (snd ?run) = calls demoIO @ [PublishWithContext 0 (SpanCtx Background (nextSpan demoIO))
      ''events.topic.exchange'' ''Order.Created'' False False m]"
    and h: "\<forall>k. k \<notin> {''traceparent''} \<longrightarrow> map_of (Headers m) k =
      wireHeader demoLib ''Order.Created'' ''svc'' (RFC3339 demoLib (clock demoLib (ticks demoIO)))
        (newUUID demoLib (uuids demoIO)) (tableOf (Some [(''ce-type'', GStr ''T'')])) k" by auto
  have "map_of (Headers m) ''cloudEvents:type'' = Some (GStr ''T'')"
    "map_of (Headers m) ''cloudEvents:source'' = Some (GStr ''svc'')"
    using h by (simp_all add: wireHeader_def wireDefaults_def remapped_def idKey_def demoLib_def tableOf_def)
  with m run show ?thesis by (auto simp: demoIO_def)
qed

text \<open>
  C9: renaming the caller's \<open>ce-*\<close> headers does not depend on the order in which Go visits
  the map, although the loop inserts and deletes while it runs: for any two association lists of one
  map, and any two visiting orders that reach all its keys (keys the loop inserts may or
  may not be visited too), the resulting maps are equal, and equal to the specification.
\<close>

theorem remapLoop_any_order:
  assumes "same_map h h'" and "set (gokeys h) \<subseteq> set ks" and "set (gokeys h') \<subseteq> set ks'"
  shows "map_of (remapLoop ks h) = map_of (remapLoop ks' h') \<and> map_of (remapLoop ks h) = remapped h"
  using assms remapped_cong [of h h'] by (simp add: remapLoop_remapped same_map_def)

theorem remapLoop_any_order_witness:
  "map_of (remapLoop [''ce-id'', ''a''] [(''ce-id'', GStr ''1''), (''a'', GNil)]) ''cloudEvents:id'' = Some (GStr ''1'')"
proof -
  have h: "same_map [(''ce-id'', GStr ''1''), (''a'', GNil)] [(''a'', GNil), (''ce-id'', GStr ''1'')]"
    by (auto simp: same_map_def gomap_ok_def fun_eq_iff)
  have "map_of (remapLoop [''ce-id'', ''a''] [(''ce-id'', GStr ''1''), (''a'', GNil)]) =
      remapped [(''ce-id'', GStr ''1''), (''a'', GNil)]"
    by (rule conjunct2 [OF remapLoop_any_order [OF h, of _ "[''a'', ''ce-id'', ''cloudEvents:id'']"]]) auto
  then show ?thesis by (simp only:) (simp add: remapped_def)
qed

subsection \<open>Observability\<close>

text \<open>The events of one span between its start and its end.\<close>

fun spanBody :: "nat \<Rightarrow> spanEvent \<Rightarrow> bool" where
  "spanBody i (SpanAttributes j attrs) = (i = j)"
| "spanBody i (SpanError j e) = (i = j)"
| "spanBody i (SpanStatus j st) = (i = j)"
| "spanBody i ev = False"

text \<open>
  A span that was started, tells the result and has ended: its status is \<open>Ok\<close> exactly for
  a result without error, and an error is recorded before its text becomes the status.
\<close>

definition spanTells :: "lib \<Rightarrow> nat \<Rightarrow> unit res \<Rightarrow> spanEvent list \<Rightarrow> bool" where
  "spanTells L i r evs \<longleftrightarrow>
     (\<exists>tr c name kind attrs body. evs = SpanStart i tr c name kind attrs # body @ [SpanEnd i]
        \<and> list_all (spanBody i) body
        \<and> (SpanStatus i StatusOk \<in> set body \<longleftrightarrow> r = Ok ())
        \<and> (\<forall>e. r = Err e \<longrightarrow> (\<exists>pre. body = pre @
             [SpanError i e, SpanStatus i (StatusError (Error (ErrParseJSONText L) e))])))"

lemma spanTellsI:
  "list_all (spanBody i) body \<Longrightarrow> (SpanStatus i StatusOk \<in> set body \<longleftrightarrow> r = Ok ()) \<Longrightarrow>
   (\<And>e. r = Err e \<Longrightarrow> \<exists>pre. body = pre @ [SpanError i e, SpanStatus i (StatusError (Error (ErrParseJSONText L) e))]) \<Longrightarrow>
   spanTells L i r (SpanStart i tr c name kind attrs # body @ [SpanEnd i])"
  by (auto simp: spanTells_def)

lemma readyToPublish_spans:
  "\<exists>tr' name attrs attrs'. spanLog (readyToPublish L c tr nameFn rk ex src body h s) = spanLog s @
     [SpanStart (nextSpan s) tr' c name SpanKindProducer attrs, SpanAttributes (nextSpan s) attrs']"
  by (simp add: readyToPublish_def Let_def)



end
