(* ===== verification/Connection.thy ===== *)
theory Connection
  imports Consumer Queue_Config Publisher_Wire
begin

text \<open>
  The connection, \<open>connection.go\<close> and the options of \<open>setup.go\<close>. The struct \<open>Connection\<close> is
  split: its plain fields are \<open>core\<close> of the shared state, because handlers that answer requests
  publish through the connection; its registry of consumers, which holds the handlers themselves, is
  \<open>registry\<close> of the \<open>world\<close>. \<open>loops\<close> lists the consumer goroutines that were started, each with the
  channel it consumes from and the queue whose consumer it runs. A \<open>Setup\<close> is a named function on
  the world; the name is what \<open>getSetupFuncName\<close> reads from the runtime. The field \<open>dialFn\<close> is
  \<open>dialConfig\<close>, the value the package gives it.
\<close>

record world =
  wio :: io
  registry :: "queueConsumers option"
  loops :: "(amqpChannel \<times> string) list"

record setupFn =
  setupName :: string
  runSetup :: "(world, unit) M"

abbreviation conn :: "world \<Rightarrow> connCore" where
  "conn w \<equiv> core (wio w)"

definition liftW :: "(io, 'a) M \<Rightarrow> (world, 'a) M" where
  "liftW m w = (case m (wio w) of (r, s) \<Rightarrow> (r, w\<lparr>wio := s\<rparr>))"

definition onCore :: "(connCore \<Rightarrow> connCore) \<Rightarrow> (world, unit) M" where
  "onCore f = putM (\<lambda>w. w\<lparr>wio := (wio w)\<lparr>core := f (core (wio w))\<rparr>\<rparr>)"

text \<open>A method call on \<open>c.logger\<close>, to derive a logger or to write a record: it panics on a nil logger.\<close>

definition useLogger :: "(world, unit) M" where
  "useLogger = bindM (getM conn) (\<lambda>c. case logger c of None \<Rightarrow> panicM nilDereference | Some l \<Rightarrow> returnM ())"


subsection \<open>Making a connection\<close>

definition defaultSpanName :: "deliveryInfo \<Rightarrow> string" where
  "defaultSpanName info = trimExchangeFromQueue (Destination info) (Source info) @ ''#'' @ Key info"

definition newQueueConsumers :: queueConsumers where
  "newQueueConsumers = \<lparr>consumers = [], qcsSpanNameFn = Some defaultSpanName\<rparr>"

definition newTopology :: "string \<Rightarrow> topology" where
  "newTopology svc = \<lparr>Transport = TransportAMQP, ServiceName = svc, Endpoints = []\<rparr>"

definition newConnection :: "string \<Rightarrow> string \<Rightarrow> connCore \<times> queueConsumers" where
  "newConnection svc uri =
     (\<lparr>started = False, serviceName = svc, amqpUri = uri, connection = None, setupChannel = None,
       responseChannel = None, notificationCh = None, errorCh = None, spanNameFn = None,
       publishSpanNameFn = None, consumerChannels = [], closeListener = None, prefetchLimit = 20,
       logger = Some (logWith ''service'' svc slogDefault),
       topology = newTopology svc, tracerProvider = None, connPropagator = None, legacySupport = False\<rparr>,
      newQueueConsumers)"

definition NewFromURL :: "lib \<Rightarrow> string \<Rightarrow> string \<Rightarrow> goerr + (connCore \<times> queueConsumers)" where
  "NewFromURL L svc url =
     (if svc = [] then Inl (ErrText ''service name must not be empty'')
      else case ParseURI L url of
        Inl e \<Rightarrow> Inl (ErrText e)
      | Inr uri \<Rightarrow> Inr (newConnection svc uri))"

text \<open>\<open>Must\<close> (\<open>must.go\<close>): panics on an error.\<close>

definition Must :: "lib \<Rightarrow> goerr + 'a \<Rightarrow> 'a res" where
  "Must L r = (case r of Inl e \<Rightarrow> Panic (Error (ErrParseJSONText L) e) | Inr t \<Rightarrow> Ok t)"

definition packagePath :: string where
  "packagePath = ''github.com/sparetimecoders/go-messaging-amqp''"

definition version :: "lib \<Rightarrow> string" where
  "version L =
     (case buildDeps L of
        None \<Rightarrow> ''_unknown_''
      | Some deps \<Rightarrow> (case find (\<lambda>(path, v). path = packagePath) deps of
          Some (path, v) \<Rightarrow> v
        | None \<Rightarrow> ''_unknown_''))"

definition hostName :: "lib \<Rightarrow> string" where
  "hostName L = (case osHostname L of Inl e \<Rightarrow> ''_unknown_'' | Inr h \<Rightarrow> h)"

definition amqpConfig :: "lib \<Rightarrow> string \<Rightarrow> amqpConfigR" where
  "amqpConfig L svc = \<lparr>Heartbeat = 10, Locale = ''en_US'',
     connectionName = svc @ ''#'' @ version L @ ''#@'' @ hostName L\<rparr>"

definition connectToAmqpURL :: "lib \<Rightarrow> (world, unit) M" where
  "connectToAmqpURL L =
     bindM (getM conn) (\<lambda>c.
     thenM (liftW (invoke L (Dial (amqpUri c) (amqpConfig L (serviceName c)))))
     (onCore (\<lambda>c. c\<lparr>connection := Some (AmqpConn (prefetchLimit c) (closeListener c))\<rparr>)))"


subsection \<open>Methods used by the setup functions\<close>

definition addEndpoint :: "endpoint \<Rightarrow> (world, unit) M" where
  "addEndpoint ep =
     onCore (\<lambda>c. c\<lparr>topology := (topology c)\<lparr>Endpoints := Endpoints (topology c) @ [ep]\<rparr>\<rparr>)"

definition connTracer :: "lib \<Rightarrow> connCore \<Rightarrow> tracer" where
  "connTracer L c = tracerFromProvider L (tracerProvider c)"

definition exchangeDeclare :: "lib \<Rightarrow> amqpChannel option \<Rightarrow> string \<Rightarrow> string \<Rightarrow> (io, unit) M" where
  "exchangeDeclare L ch name kind = chExchangeDeclare L ch name kind True False False False None"

definition queueDeclare :: "lib \<Rightarrow> amqpChannel option \<Rightarrow> consumerConfig \<Rightarrow> (io, unit) M" where
  "queueDeclare L ch cfg = chQueueDeclare L ch (cfgQueueName cfg) True False False False (cfgQueueHeaders cfg)"

definition registerHandler :: "lib \<Rightarrow> string \<Rightarrow> string \<Rightarrow> wrappedHandler \<Rightarrow> (world, unit) M" where
  "registerHandler L q rk h w =
     (case registry w of
        None \<Rightarrow> (Panic nilDereference, w)
      | Some qcs \<Rightarrow> (case queueConsumers_add L qcs q rk h of
          (err, qcs') \<Rightarrow> (case err of None \<Rightarrow> Ok () | Some e \<Rightarrow> Err e, w\<lparr>registry := Some qcs'\<rparr>)))"

definition messageHandlerBindQueueToExchange :: "lib \<Rightarrow> consumerConfig \<Rightarrow> (world, unit) M" where
  "messageHandlerBindQueueToExchange L cfg =
     thenM (registerHandler L (cfgQueueName cfg) (cfgRoutingKey cfg) (cfgHandler cfg))
     (bindM (getM (\<lambda>w. setupChannel (conn w))) (\<lambda>ch.
      thenM (liftW (exchangeDeclare L ch (cfgExchangeName cfg) (cfgKind cfg)))
      (thenM (liftW (queueDeclare L ch cfg))
      (thenM useLogger
      (liftW (chQueueBind L ch (cfgQueueName cfg) (cfgRoutingKey cfg) (cfgExchangeName cfg) False
        (cfgQueueBindingHeaders cfg)))))))"

definition PublishServiceResponse ::
  "lib \<Rightarrow> ctx \<Rightarrow> string \<Rightarrow> string \<Rightarrow> ('m \<Rightarrow> string + string) \<Rightarrow> 'm \<Rightarrow> (io, unit) M" where
  "PublishServiceResponse L c targetService routingKey marshal msg =
     bindM (getM core) (\<lambda>cc.
       publishMessage L c (Some (connTracer L cc)) (connPropagator cc) None (responseChannel cc) marshal msg
         routingKey (serviceResponseExchangeName (serviceName cc)) (serviceName cc)
         (Some [(headerService, GStr targetService)]))"


subsection \<open>Start and Close\<close>

definition updConsumer :: "string \<Rightarrow> (queueConsumer \<Rightarrow> queueConsumer) \<Rightarrow> (world, unit) M" where
  "updConsumer q f = putM (\<lambda>w. w\<lparr>registry := map_option (\<lambda>qcs. qcs\<lparr>consumers :=
     AList.map_entry q f (consumers qcs)\<rparr>) (registry w)\<rparr>)"

definition configureConsumer :: "lib \<Rightarrow> connCore \<Rightarrow> queueConsumer \<Rightarrow> queueConsumer" where
  "configureConsumer L c qc =
     (let qc' = qc\<lparr>qcLogger := map_option (logWith ''queue'' (queue qc)) (logger c), qcTracer := Some (connTracer L c), qcPropagator := connPropagator c,
        qcServiceName := serviceName c, qcLegacySupport := legacySupport c\<rparr>
      in case spanNameFn c of None \<Rightarrow> qc' | Some f \<Rightarrow> qc'\<lparr>qcSpanNameFn := Some f\<rparr>)"

definition startConsumer :: "lib \<Rightarrow> string \<times> queueConsumer \<Rightarrow> (world, unit) M" where
  "startConsumer L entry =
     (let q = fst entry; name = queue (snd entry) in
      bindM (getM conn) (\<lambda>c.
      let qc = configureConsumer L c (snd entry) in
      thenM useLogger
      (thenM (updConsumer q (\<lambda>_. qc))
      (bindM (wrapM (''failed to create consumer channel for queue '' @ name @ '': '')
         (liftW (connChannel L (connection c)))) (\<lambda>ch.
       thenM (onCore (\<lambda>c. c\<lparr>consumerChannels := consumerChannels c @ [ch]\<rparr>))
       (case queueConsumer_consume L qc (Some ch) (notificationCh c) (errorCh c) of (qc', call) \<Rightarrow>
        thenM (updConsumer q (\<lambda>_. qc'))
        (thenM (wrapM (''failed to create consumer for queue '' @ name @ '': '') (liftW call))
        (thenM useLogger
        (putM (\<lambda>w. w\<lparr>loops := loops w @ [(ch, q)]\<rparr>))))))))))"

text \<open>The loop over the map of consumers, in its visiting order.\<close>

definition startConsumers :: "lib \<Rightarrow> (world, unit) M" where
  "startConsumers L w =
     (case registry w of
        None \<Rightarrow> (Panic nilDereference, w)
      | Some qcs \<Rightarrow> forM (startConsumer L) (consumers qcs) w)"

text \<open>\<open>c.f, err = c.connection.channel()\<close>: on an error the field becomes nil.\<close>

definition channelInto ::
  "lib \<Rightarrow> (amqpChannel option \<Rightarrow> connCore \<Rightarrow> connCore) \<Rightarrow> (world, unit) M \<Rightarrow> string \<Rightarrow> (world, unit) M" where
  "channelInto L assign cleanup what w =
     (case liftW (connChannel L (connection (conn w))) w of
        (Ok ch, w') \<Rightarrow> onCore (assign (Some ch)) w'
      | (Err e, w') \<Rightarrow> thenM (onCore (assign None)) (thenM cleanup (failM (ErrWrap what e))) w'
      | (Panic p, w') \<Rightarrow> (Panic p, w')
      | (Blocked, w') \<Rightarrow> (Blocked, w'))"

definition runSetups :: "setupFn list \<Rightarrow> (world, unit) M" where
  "runSetups = forM (\<lambda>f. wrapM (''setup function <'' @ setupName f @ ''> failed: '') (runSetup f))"

definition notifyConnectionClose :: "(world, unit) M" where
  "notifyConnectionClose =
     bindM (getM conn) (\<lambda>c.
     case (closeListener c, connection c) of
       (Some l, Some (AmqpConn pf cl)) \<Rightarrow>
         thenM (liftW (recordCall NotifyConnectionClose))
           (liftW (putM (\<lambda>s. s\<lparr>forwarders := forwarders s @ [FwdConnection]\<rparr>)))
     | _ \<Rightarrow> returnM ())"

definition ensureLogger :: "connCore \<Rightarrow> connCore" where
  "ensureLogger c = (if logger c = None then c\<lparr>logger := Some (logWith ''service'' (serviceName c) slogDefault)\<rparr> else c)"

definition Start :: "lib \<Rightarrow> setupFn list \<Rightarrow> (world, unit) M" where
  "Start L opts =
     bindM (getM conn) (\<lambda>c.
     if started c then failM ErrAlreadyStarted
     else
       thenM (onCore ensureLogger)
       (thenM (putM (\<lambda>w. w\<lparr>registry := Some (case registry w of None \<Rightarrow> newQueueConsumers | Some qcs \<Rightarrow> qcs)\<rparr>))
       (thenM (if connection c = None then connectToAmqpURL L else returnM ())
       (thenM useLogger
       (thenM (channelInto L (\<lambda>ch c. c\<lparr>responseChannel := ch\<rparr>) (returnM ()) ''failed to create response channel: '')
       (thenM (channelInto L (\<lambda>ch c. c\<lparr>setupChannel := ch\<rparr>)
           (bindM (getM conn) (\<lambda>c. thenM (liftW (tryM (chClose L (responseChannel c)))) (returnM ())))
           ''failed to create setup channel: '')
       (thenM (runSetups opts)
       (thenM (wrapM ''failed to close setup channel: ''
           (bindM (getM conn) (\<lambda>c. liftW (chClose L (setupChannel c)))))
       (thenM notifyConnectionClose
       (thenM (startConsumers L)
       (thenM (onCore (\<lambda>c. c\<lparr>started := True\<rparr>))
       useLogger)))))))))))"

primrec closeAll :: "lib \<Rightarrow> amqpChannel list \<Rightarrow> (world, goerr list) M" where
  "closeAll L [] = returnM []"
| "closeAll L (ch # chs) =
     bindM (liftW (tryM (chClose L (Some ch)))) (\<lambda>err.
     bindM (closeAll L chs) (\<lambda>errs.
     returnM ((case err of None \<Rightarrow> [] | Some e \<Rightarrow> [e]) @ errs)))"

definition Close :: "lib \<Rightarrow> (world, unit) M" where
  "Close L =
     bindM (getM conn) (\<lambda>c.
     if \<not> started c then returnM ()
     else
       thenM (onCore (\<lambda>c. c\<lparr>started := False\<rparr>))
       (bindM (closeAll L (consumerChannels c)) (\<lambda>errs.
        bindM (liftW (tryM (connClose L (connection c)))) (\<lambda>err.
        case errors_Join (errs @ (case err of None \<Rightarrow> [] | Some e \<Rightarrow> [e])) of
          None \<Rightarrow> returnM ()
        | Some e \<Rightarrow> failM e))))"


subsection \<open>Options of a connection\<close>

definition coreSetup :: "string \<Rightarrow> (connCore \<Rightarrow> connCore) \<Rightarrow> setupFn" where
  "coreSetup name f = \<lparr>setupName = packagePath @ ''.'' @ name @ ''.func1'', runSetup = onCore f\<rparr>"

definition WithLogger :: "logger option \<Rightarrow> setupFn" where
  "WithLogger l = \<lparr>setupName = packagePath @ ''.WithLogger.func1'', runSetup =
     (case l of
        None \<Rightarrow> panicM nilDereference
      | Some lg \<Rightarrow> onCore (\<lambda>c. c\<lparr>logger := Some (logWith ''service'' (serviceName c) lg)\<rparr>))\<rparr>"

definition WithTracing :: "nat option \<Rightarrow> setupFn" where
  "WithTracing tp = coreSetup ''WithTracing'' (\<lambda>c. c\<lparr>tracerProvider := tp\<rparr>)"

definition WithPrefetchLimit :: "int \<Rightarrow> setupFn" where
  "WithPrefetchLimit limit = coreSetup ''WithPrefetchLimit'' (\<lambda>c. c\<lparr>prefetchLimit := limit\<rparr>)"

definition WithNotificationChannel :: "nat option \<Rightarrow> setupFn" where
  "WithNotificationChannel ch = coreSetup ''WithNotificationChannel'' (\<lambda>c. c\<lparr>notificationCh := ch\<rparr>)"

definition WithErrorChannel :: "nat option \<Rightarrow> setupFn" where
  "WithErrorChannel ch = coreSetup ''WithErrorChannel'' (\<lambda>c. c\<lparr>errorCh := ch\<rparr>)"

definition WithPropagator :: "propagator option \<Rightarrow> setupFn" where
  "WithPropagator p = coreSetup ''WithPropagator'' (\<lambda>c. c\<lparr>connPropagator := p\<rparr>)"

definition WithSpanNameFn :: "(deliveryInfo \<Rightarrow> string) option \<Rightarrow> setupFn" where
  "WithSpanNameFn f = coreSetup ''WithSpanNameFn'' (\<lambda>c. c\<lparr>spanNameFn := f\<rparr>)"

definition WithPublishSpanNameFn :: "(string \<Rightarrow> string \<Rightarrow> string) option \<Rightarrow> setupFn" where
  "WithPublishSpanNameFn f = coreSetup ''WithPublishSpanNameFn'' (\<lambda>c. c\<lparr>publishSpanNameFn := f\<rparr>)"

definition WithLegacySupport :: setupFn where
  "WithLegacySupport = coreSetup ''WithLegacySupport'' (\<lambda>c. c\<lparr>legacySupport := True\<rparr>)"

definition CloseListener :: "nat option \<Rightarrow> setupFn" where
  "CloseListener l = coreSetup ''CloseListener'' (\<lambda>c. c\<lparr>closeListener := l\<rparr>)"

lemma liftW_run [run_simps]: "liftW m w = (case m (wio w) of (r, s) \<Rightarrow> (r, w\<lparr>wio := s\<rparr>))"
  by (simp add: liftW_def)

lemma onCore_run [run_simps]: "onCore f w = (Ok (), w\<lparr>wio := (wio w)\<lparr>core := f (core (wio w))\<rparr>\<rparr>)"
  by (simp add: onCore_def run_simps)

lemma useLogger_run [run_simps]:
  "useLogger w = (case logger (conn w) of None \<Rightarrow> (Panic nilDereference, w) | Some l \<Rightarrow> (Ok (), w))"
  by (simp add: useLogger_def bindM_run getM_run panicM_run returnM_run split: option.split)

lemma useLogger_Some [simp]: "logger (conn w) = Some l \<Longrightarrow> useLogger w = (Ok (), w)"
  by (simp add: useLogger_run)

lemma useLogger_state [simp]: "snd (useLogger w) = w"
  by (simp add: useLogger_run split: option.split)

lemma useLogger_Ok_iff [simp]: "useLogger w = (Ok (), w') \<longleftrightarrow> logger (conn w) \<noteq> None \<and> w' = w"
  by (auto simp: useLogger_run split: option.split)

lemma keeps_useLogger [keeps_rules]: "(\<And>w. R w w) \<Longrightarrow> keeps R useLogger"
  by (auto simp: keeps_def useLogger_run split: option.split)

lemma keeps_logged:
  assumes "keeps R m" and "keeps R (bindM m f)"
  shows "keeps R (bindM m (\<lambda>a. thenM useLogger (f a)))"
proof (rule keepsI)
  fix w
  obtain r t where run: "m w = (r, t)" by fastforce
  from keeps_snd [OF assms(1), of w] keeps_snd [OF assms(2), of w]
  show "R w (snd (bindM m (\<lambda>a. thenM useLogger (f a)) w))"
    by (cases r) (auto simp: run bindM_run useLogger_run split: option.split)
qed

lemma ensureLogger_simps [simp]:
  "\<exists>l. logger (ensureLogger c) = Some l" "started (ensureLogger c) = started c" "serviceName (ensureLogger c) = serviceName c"
  "amqpUri (ensureLogger c) = amqpUri c" "connection (ensureLogger c) = connection c"
  "setupChannel (ensureLogger c) = setupChannel c" "responseChannel (ensureLogger c) = responseChannel c"
  "consumerChannels (ensureLogger c) = consumerChannels c" "closeListener (ensureLogger c) = closeListener c"
  "prefetchLimit (ensureLogger c) = prefetchLimit c" "topology (ensureLogger c) = topology c"
  by (simp_all add: ensureLogger_def)

lemma ensureLogger_id [simp]: "logger c = Some l \<Longrightarrow> ensureLogger c = c"
  by (simp add: ensureLogger_def)

end
