(* ===== verification/Publisher_Confirm.thy ===== *)
theory Publisher_Confirm
  imports Publisher_Wire
begin

text \<open>
  \<open>Publisher.Publish\<close>: the checks before publishing, the wait for the broker's
  confirmation, and what goes wrong when a confirmation is not the publisher's own. Sequences of
  publishes on one publisher are in \<open>Outbox.thy\<close>.
\<close>

text \<open>
  Hypotheses on the broker and the caller. In confirm mode the broker numbers the messages it
  accepts on a channel from 1 (\<open>acceptedOn\<close>), and here confirms each of them, in order, while its
  publisher waits; the context of the caller is not cancelled.
\<close>

definition acceptedOn :: "lib \<Rightarrow> nat \<Rightarrow> amqpCall list \<Rightarrow> nat" where
  "acceptedOn L n h =
     length (filter (\<lambda>i. isPublishOn n (h ! i) \<and> amqpErr L (take i h) (h ! i) = None) [0..<length h])"

definition confirms_in_order :: "lib \<Rightarrow> nat \<Rightarrow> nat \<Rightarrow> bool" where
  "confirms_in_order L n q \<longleftrightarrow>
     (\<forall>h call. isPublishOn n call \<and> amqpErr L h call = None \<longrightarrow>
        (\<exists>ack. arrivals L (h @ [call]) q =
           [\<lparr>DeliveryTag = acceptedOn L n (h @ [call]), Ack = ack\<rparr>]))"

definition never_cancelled :: "lib \<Rightarrow> ctx \<Rightarrow> bool" where
  "never_cancelled L c \<longleftrightarrow> (\<forall>h. ctxErr L h c = None)"


subsection \<open>Headers of a publish\<close>

lemma addHeaders_invalid: "validateKeys hs = Some e \<Longrightarrow> addHeaders hs t = Inl e"
  by (induction hs arbitrary: t) (auto simp del: validateKey_None split: option.splits)

lemma addHeaders_valid:
  "validateKeys hs = None \<Longrightarrow>
   addHeaders hs t = Inr (fold (\<lambda>h t. AList.update (headerKey h) (headerValue h) t) hs t)"
  by (induction hs arbitrary: t) (auto simp del: validateKey_None split: option.splits)

lemma validateKeys_None: "validateKeys hs = None \<longleftrightarrow> (\<forall>h \<in> set hs. validateKey h = None)"
  by (induction hs) (auto simp del: validateKey_None split: option.splits)

lemma fold_headers_other:
  "\<forall>h \<in> set hs. headerKey h \<noteq> k \<Longrightarrow>
   map_of (fold (\<lambda>h t. AList.update (headerKey h) (headerValue h) t) hs t) k = map_of t k"
  by (induction hs arbitrary: t) auto

lemma Publish_invalid_header:
  "validateKeys hs = Some e \<Longrightarrow> Publish L c p rk marshal msg hs s = (Err e, s)"
  by (simp add: Publish_def run_simps addHeaders_invalid)

definition publishTable :: "publisher \<Rightarrow> header list \<Rightarrow> table" where
  "publishTable pub hs =
     fold (\<lambda>h t. AList.update (headerKey h) (headerValue h) t) hs (defaultTable (defaultHeaders pub))"

lemma Publish_valid_header:
  assumes "validateKeys hs = None" and "pub = pubs s p"
  shows "Publish L c p rk marshal msg hs s =
    thenM (publishMessage L c (pubTracer pub) (pubPropagator pub) (pubSpanNameFn pub) (channel pub)
        marshal msg rk (exchange pub) (pubServiceName pub) (Some (publishTable pub hs)))
      (waitConfirm L c (confirmCh pub) (''broker nacked publish to '' @ exchange pub @ ''/'' @ rk)
        ''context cancelled waiting for publish confirm: '') s"
  using assms by (simp add: Publish_def bindM_Ok [OF getM_run] addHeaders_valid publishTable_def)

text \<open>A publisher that \<open>setup\<close> has wired: the service header is the last default header.\<close>

definition wired :: "publisher \<Rightarrow> bool" where
  "wired pub \<longleftrightarrow> (\<exists>hs. defaultHeaders pub = hs @ [\<lparr>headerKey = headerService,
     headerValue = GStr (pubServiceName pub)\<rparr>])"

lemma publishTable_service:
  assumes "wired pub" and "validateKeys hs = None"
  shows "map_of (publishTable pub hs) headerService = Some (GStr (pubServiceName pub))"
proof -
  have "\<forall>h \<in> set hs. headerKey h \<noteq> headerService"
    using assms(2) by (simp add: validateKeys_None)
  moreover have "map_of (defaultTable (defaultHeaders pub)) headerService = Some (GStr (pubServiceName pub))"
    using assms(1) by (auto simp: wired_def defaultTable_def)
  ultimately show ?thesis by (simp add: publishTable_def fold_headers_other)
qed

lemma wireHeader_other:
  assumes "ce_wire_format L" and "map_of h headerService = Some v"
  shows "wireHeader L rk src now u h headerService = Some v"
  using assms by (simp add: wireHeader_def remapped_def idKey_def headerService_def ce_wire_format_def)

text \<open>The only call \<open>Publish\<close> makes is the one of its message; when it returns nil it made it.\<close>

lemma Publish_calls:
  assumes valid: "validateKeys hs = None" and pub: "pub = pubs s p" "channel (pubs s p) = Some (AmqpChannel n)"
    and run: "Publish L c p rk marshal msg hs s = (r, t)"
  shows "(calls t = calls s \<and> r \<noteq> Ok ()) \<or> (\<exists>body. marshal msg = Inr body \<and> calls t = calls s @
      [publishCall L s c (pubPropagator pub) rk (exchange pub) (pubServiceName pub) body (publishTable pub hs) n])"
proof -
  obtain r1 t1 where msg: "publishMessage L c (pubTracer pub) (pubPropagator pub) (pubSpanNameFn pub)
      (Some (AmqpChannel n)) marshal msg rk (exchange pub) (pubServiceName pub)
      (Some (publishTable pub hs)) s = (r1, t1)" by fastforce
  have "calls t = calls t1 \<and> (r = Ok () \<longrightarrow> r1 = Ok ())"
    using run pub(2) msg unfolding Publish_valid_header [OF valid pub(1)]
    by (auto simp: bindM_run waitConfirm_def selectConfirm_def run_simps Let_def pub(1)
        split: res.splits option.splits list.splits if_splits sum.splits)
  moreover have "(calls t1 = calls s \<and> r1 \<noteq> Ok ()) \<or> (\<exists>body. marshal msg = Inr body \<and> calls t1 = calls s @
      [publishCall L s c (pubPropagator pub) rk (exchange pub) (pubServiceName pub) body (publishTable pub hs) n])"
  proof (cases "marshal msg")
    case (Inr body)
    then show ?thesis using publishMessage_on_channel(2) [OF Inr msg] by (auto simp: tableOf_def)
  qed (use msg in \<open>auto simp: publishMessage_marshal_error\<close>)
  ultimately show ?thesis by auto
qed

lemma wireMessage_service:
  assumes "ce_wire_format L" "propagates_fields (propagatorOrGlobal L prop) F" "headerService \<notin> F"
    and "map_of h headerService = Some v"
  shows "map_of (Headers (wireMessage L s c prop rk src body h)) headerService = Some v"
  using inject_other [OF assms(2,3)] wireHeader_other [OF assms(1,4)]
  by (simp add: wireMessage_def wireTable_wireHeader [OF assms(1)])

text \<open>
  C12: the header \<open>service\<close> cannot be forged. A wired publisher's \<open>Publish\<close> makes no call on the
  AMQP library, or one: it puts a message on its channel that names the publisher's own service in
  the header \<open>service\<close>, whatever headers the caller passed; with a reserved or empty header key the
  call returns the validation error of the first offending header and changes nothing.
\<close>

theorem Publish_service_header:
  assumes lib: "ce_wire_format L" "propagates_fields (propagatorOrGlobal L (pubPropagator (pubs s p))) F"
      "headerService \<notin> F"
    and pub: "wired (pubs s p)" "channel (pubs s p) = Some (AmqpChannel n)"
    and run: "Publish L c p rk marshal msg hs s = (r, t)"
  shows "(case validateKeys hs of
      Some e \<Rightarrow> r = Err e \<and> t = s
    | None \<Rightarrow> calls t = calls s
        \<or> (\<exists>m. calls t = calls s @ [PublishWithContext n (SpanCtx c (nextSpan s)) (exchange (pubs s p)) rk False False m]
            \<and> map_of (Headers m) headerService = Some (GStr (pubServiceName (pubs s p)))))"
proof (cases "validateKeys hs")
  case (Some e)
  then show ?thesis using run by (simp add: Publish_invalid_header)
next
  case valid: None
  define pub where "pub = pubs s p"
  have "map_of (Headers (wireMessage L s c (pubPropagator pub) rk src body (publishTable pub hs)))
      headerService = Some (GStr (pubServiceName pub))" for src body
    using wireMessage_service [OF lib] publishTable_service [OF pub(1) valid] by (simp add: pub_def)
  with Publish_calls [OF valid pub_def pub(2) run] show ?thesis
    using valid by (auto simp: publishCall_def simp flip: pub_def)
qed

theorem Publish_service_header_witness:
  "fst (Publish demoLib Background 0 ''k'' Inr ''{}'' [\<lparr>headerKey = ''service'', headerValue = GStr ''x''\<rparr>] demoIO)
     = Err (ErrText ''reserved key service used, please change to use another one'')
   \<and> (\<exists>m. calls (snd (Publish demoLib Background 0 ''k'' Inr ''{}'' [] demoIO)) =
          [PublishWithContext 0 (SpanCtx Background 0) ''events.topic.exchange'' ''k'' False False m]
      \<and> map_of (Headers m) ''service'' = Some (GStr ''svc''))"
proof -
  have pf: "propagates_fields (propagatorOrGlobal demoLib (pubPropagator (pubs demoIO 0))) {''traceparent''}"
    using traceparentPropagator_fields by (simp add: propagatorOrGlobal_def demoLib_def demoIO_def demoPublisher_def)
  have hs: "headerService \<notin> {''traceparent''}" by (simp add: headerService_def)
  have pub: "wired (pubs demoIO 0)" "channel (pubs demoIO 0) = Some (AmqpChannel 0)"
    by (simp_all add: wired_def demoIO_def demoPublisher_def headerService_def)
  note service = Publish_service_header [OF demoLib_ce pf hs pub surjective_pairing]
  have "calls (snd (Publish demoLib Background 0 ''k'' Inr ''{}'' [] demoIO)) \<noteq> []"
    by (simp add: Publish_valid_header [OF _ refl] publishMessage_run run_simps channel_op_defs Let_def waitConfirm_def selectConfirm_def)
  then show ?thesis
    using service [of Background "''k''" Inr "''{}''" "[\<lparr>headerKey = ''service'', headerValue = GStr ''x''\<rparr>]"]
      service [of Background "''k''" Inr "''{}''" "[]"]
    by (simp add: validateKey_def reservedHeaderKeys_def headerService_def demoIO_def demoPublisher_def)
qed


subsection \<open>Waiting for the confirmation\<close>

lemma Publish_accepted:
  assumes "validateKeys hs = None" and "pub = pubs s p" and "channel pub = Some (AmqpChannel n)"
    and "marshal msg = Inr body"
    and "call = publishCall L s c (pubPropagator pub) rk (exchange pub) (pubServiceName pub) body (publishTable pub hs) n"
    and "amqpErr L (calls s) call = None"
  shows "\<exists>s1. Publish L c p rk marshal msg hs s =
      waitConfirm L c (confirmCh pub) (''broker nacked publish to '' @ exchange pub @ ''/'' @ rk)
        ''context cancelled waiting for publish confirm: '' s1
    \<and> calls s1 = calls s @ [call] \<and> confirmQ s1 = confirmQ s \<and> pubs s1 = pubs s"
proof -
  obtain r s1 where msg: "publishMessage L c (pubTracer pub) (pubPropagator pub) (pubSpanNameFn pub)
      (Some (AmqpChannel n)) marshal msg rk (exchange pub) (pubServiceName pub)
      (Some (publishTable pub hs)) s = (r, s1)" by fastforce
  from publishMessage_on_channel [OF assms(4) msg] assms(5,6)
  have "r = Ok ()" "calls s1 = calls s @ [call]" "confirmQ s1 = confirmQ s" "pubs s1 = pubs s"
    by (simp_all add: tableOf_def)
  with msg assms(3) show ?thesis
    by (auto simp: Publish_valid_header [OF assms(1,2)] bindM_run)
qed

lemma Publish_rejected:
  assumes "validateKeys hs = None" and "pub = pubs s p" and "channel pub = Some (AmqpChannel n)"
    and "marshal msg = Inr body"
    and "call = publishCall L s c (pubPropagator pub) rk (exchange pub) (pubServiceName pub) body (publishTable pub hs) n"
    and "amqpErr L (calls s) call = Some e"
    and "Publish L c p rk marshal msg hs s = (r, t)"
  shows "r = Err (ErrText e)" "calls t = calls s @ [call]" "confirmQ t = confirmQ s" "pubs t = pubs s"
proof -
  obtain r1 s1 where msg: "publishMessage L c (pubTracer pub) (pubPropagator pub) (pubSpanNameFn pub)
      (Some (AmqpChannel n)) marshal msg rk (exchange pub) (pubServiceName pub)
      (Some (publishTable pub hs)) s = (r1, s1)" by fastforce
  from publishMessage_on_channel [OF assms(4) msg] assms(5,6)
  have *: "r1 = Err (ErrText e)" "calls s1 = calls s @ [call]" "confirmQ s1 = confirmQ s" "pubs s1 = pubs s"
    by (simp_all add: tableOf_def)
  with msg assms(3,7) have "(r, t) = (r1, s1)"
    by (auto simp: Publish_valid_header [OF assms(1,2)] bindM_run)
  with * show "r = Err (ErrText e)" "calls t = calls s @ [call]" "confirmQ t = confirmQ s" "pubs t = pubs s"
    by simp_all
qed

lemma waitConfirm_uncancelled:
  assumes "ctxErr L (calls s) c = None" and "confirmQ s q @ arrivals L (calls s) q = cf # cfs"
  shows "waitConfirm L c (Some q) nacked cancelled s =
    (if Ack cf then Ok () else Err (ErrText nacked), s\<lparr>confirmQ := (confirmQ s)(q := cfs)\<rparr>)"
  using assms by (simp add: waitConfirm_def selectConfirm_def run_simps Let_def)

lemma waitConfirm_nothing:
  assumes "confirmQ s q = []" and "arrivals L (calls s) q = []"
  shows "waitConfirm L c (Some q) nacked cancelled s =
    (case ctxErr L (calls s) c of None \<Rightarrow> Blocked | Some e \<Rightarrow> Err (ErrWrap cancelled (ErrText e)), s)"
  using assms
  by (cases s) (simp add: waitConfirm_def selectConfirm_def run_simps Let_def fun_upd_idem split: option.split)

text \<open>A publisher on an open channel, in confirm mode, with no confirmation left unread.\<close>

definition inSync :: "nat \<Rightarrow> nat \<Rightarrow> nat \<Rightarrow> io \<Rightarrow> bool" where
  "inSync p n q s \<longleftrightarrow>
     channel (pubs s p) = Some (AmqpChannel n) \<and> confirmCh (pubs s p) = Some q \<and> confirmQ s q = []"

text \<open>The broker has taken the message of the last call and has confirmed it under its own number.\<close>

definition confirmedOwn :: "lib \<Rightarrow> nat \<Rightarrow> nat \<Rightarrow> io \<Rightarrow> io \<Rightarrow> bool" where
  "confirmedOwn L n q s t \<longleftrightarrow>
     (\<exists>call. calls t = calls s @ [call] \<and> isPublishOn n call \<and> amqpErr L (calls s) call = None
        \<and> arrivals L (calls t) q = [\<lparr>DeliveryTag = acceptedOn L n (calls t), Ack = True\<rparr>])"

lemma Publish_unsent:
  assumes "validateKeys hs = None" and "marshal msg = Inl e"
  shows "fst (Publish L c p rk marshal msg hs s) = Err (ErrText e)"
    and "calls (snd (Publish L c p rk marshal msg hs s)) = calls s"
    and "confirmQ (snd (Publish L c p rk marshal msg hs s)) = confirmQ s"
    and "pubs (snd (Publish L c p rk marshal msg hs s)) = pubs s"
  using assms(2)
  by (simp_all add: Publish_valid_header [OF assms(1) refl] bindM_run publishMessage_marshal_error)

lemma Publish_in_sync:
  assumes lib: "confirms_in_order L n q" "never_cancelled L c" and sync: "inSync p n q s"
    and run: "Publish L c p rk marshal msg hs s = (r, t)"
  shows "inSync p n q t \<and> (r = Ok () \<longleftrightarrow> confirmedOwn L n q s t) \<and> (r = Ok () \<or> (\<exists>e. r = Err e))"
proof (cases "validateKeys hs")
  case (Some e)
  then show ?thesis using run sync by (auto simp: Publish_invalid_header confirmedOwn_def)
next
  case valid: None
  show ?thesis
  proof (cases "marshal msg")
    case (Inl e)
    with Publish_unsent [of hs marshal msg e L c p rk s] valid run sync show ?thesis
      by (auto simp: inSync_def confirmedOwn_def)
  next
    case (Inr body)
    define call where "call = publishCall L s c (pubPropagator (pubs s p)) rk (exchange (pubs s p))
      (pubServiceName (pubs s p)) body (publishTable (pubs s p) hs) n"
    have pub: "channel (pubs s p) = Some (AmqpChannel n)" "confirmCh (pubs s p) = Some q" "confirmQ s q = []"
      using sync by (simp_all add: inSync_def)
    have onN: "isPublishOn n call" by (simp add: call_def publishCall_def)
    show ?thesis
    proof (cases "amqpErr L (calls s) call")
      case (Some e)
      from Publish_rejected [OF valid refl pub(1) Inr call_def Some run] Some sync
      show ?thesis by (auto simp: inSync_def confirmedOwn_def)
    next
      case None
      obtain s1 where s1: "(r, t) = waitConfirm L c (Some q)
          (''broker nacked publish to '' @ exchange (pubs s p) @ ''/'' @ rk)
          ''context cancelled waiting for publish confirm: '' s1"
        "calls s1 = calls s @ [call]" "confirmQ s1 = confirmQ s" "pubs s1 = pubs s"
        using Publish_accepted [where marshal = marshal, OF valid refl pub(1) Inr call_def None] run pub(2) by auto
      obtain ack where ack: "arrivals L (calls s1) q = [\<lparr>DeliveryTag = acceptedOn L n (calls s1), Ack = ack\<rparr>]"
        using lib(1) onN None s1(2) by (auto simp: confirms_in_order_def)
      have "ctxErr L (calls s1) c = None" using lib(2) by (simp add: never_cancelled_def)
      from waitConfirm_uncancelled [OF this, of q] s1 ack pub(3)
      have "t = s1\<lparr>confirmQ := (confirmQ s1)(q := [])\<rparr>" "r = Ok () \<longleftrightarrow> ack" "r = Ok () \<or> (\<exists>e. r = Err e)"
        by (auto split: if_splits)
      then show ?thesis using s1 ack pub None onN by (auto simp: inSync_def confirmedOwn_def)
    qed
  qed
qed

lemma demoLib_accepted: "acceptedOn demoLib 0 h = length (filter (isPublishOn 0) h)"
proof -
  have "filter (isPublishOn 0) h = filter (isPublishOn 0) (map ((!) h) [0..<length h])"
    by (simp add: map_nth)
  then show ?thesis by (simp only: filter_map length_map comp_def acceptedOn_def) simp
qed

lemma demoLib_confirms: "confirms_in_order demoLib 0 0"
  by (auto simp: confirms_in_order_def demoLib_accepted)


subsection \<open>Setting up a publisher\<close>

lemma Publisher_setup_run:
  assumes "validateKeys headers = None"
  shows "Publisher_setup L p (Some (AmqpChannel n)) svc exch tr prop nameFn headers s =
    (let pub = (pubs s p)\<lparr>
           defaultHeaders := headers @ [\<lparr>headerKey = headerService, headerValue = GStr svc\<rparr>],
           channel := Some (AmqpChannel n), exchange := exch, pubServiceName := svc, pubTracer := tr, pubPropagator := prop, pubSpanNameFn := nameFn\<rparr>;
         s1 = s\<lparr>pubs := (pubs s)(p := pub)\<rparr>;
         q = (case confirmCh (pubs s p) of Some q \<Rightarrow> q | None \<Rightarrow> nextConfirmCh s);
         s2 = (case confirmCh (pubs s p) of Some _ \<Rightarrow> s1
               | None \<Rightarrow> s\<lparr>confirmQ := (confirmQ s)(q := []), nextConfirmCh := Suc q,
                     pubs := (pubs s)(p := pub\<lparr>confirmCh := Some q\<rparr>)\<rparr>)
     in if noConfirm (pubs s p) then (Ok (), s1)
        else wrapM ''failed to enable confirm mode: '' (invoke L (Confirm n False))
          (s2\<lparr>calls := calls s @ [NotifyPublish n q]\<rparr>))"
  using assms
  by (cases "confirmCh (pubs s p)")
    (simp_all add: Publisher_setup_def updPub_def makeConfirmCh_def Let_def channel_op_defs
      bindM_Ok [OF putM_run] bindM_Ok [OF getM_run] bindM_Ok [OF returnM_run] bindM_Ok [OF recordCall_run]
      bindM_run [of "bindM _ _"] returnM_run)

text \<open>
  C13: \<open>Publisher.setup\<close> makes a publisher ready. When it returns nil for a publisher
  without \<open>WithoutPublisherConfirms\<close>, the publisher carries the given channel, exchange and service,
  its last default header names the service, a channel for confirmations is registered on the
  AMQP channel before confirm mode is switched on, that channel is the one of \<open>WithConfirm\<close> or a
  fresh, empty one (so the publisher is in sync), and no other publisher changes. A header with an
  empty or reserved key is refused before anything changes.
\<close>

theorem Publisher_setup_ready:
  assumes "noConfirm (pubs s p) = False"
    and "\<forall>q. confirmCh (pubs s p) = Some q \<longrightarrow> confirmQ s q = []"
    and "Publisher_setup L p (Some (AmqpChannel n)) svc exch tr prop nameFn headers s = (r, t)"
  shows "(r = Ok () \<longrightarrow> (\<exists>q. wired (pubs t p) \<and> inSync p n q t \<and> exchange (pubs t p) = exch
        \<and> pubServiceName (pubs t p) = svc \<and> calls t = calls s @ [NotifyPublish n q, Confirm n False]
        \<and> q = (case confirmCh (pubs s p) of Some q \<Rightarrow> q | None \<Rightarrow> nextConfirmCh s)))
    \<and> (\<forall>e. validateKeys headers = Some e \<longrightarrow> r = Err e \<and> t = s)
    \<and> (\<forall>p'. p' \<noteq> p \<longrightarrow> pubs t p' = pubs s p')"
proof (cases "validateKeys headers")
  case None
  show ?thesis
  proof (cases "confirmCh (pubs s p)")
    case none: None
    with assms None show ?thesis unfolding Publisher_setup_run [OF None]
      by (auto simp: Let_def run_simps wired_def inSync_def split: option.splits)
  next
    case (Some q)
    with assms None show ?thesis unfolding Publisher_setup_run [OF None]
      by (auto simp: Let_def run_simps wired_def inSync_def split: option.splits)
  qed
qed (use assms in \<open>auto simp: Publisher_setup_def failM_run\<close>)

theorem Publisher_setup_ready_witness:
  "\<exists>t. Publisher_setup demoLib 0 (Some (AmqpChannel 0)) ''svc'' ''ex'' None None None [] demoIO = (Ok (), t)
     \<and> calls t = [NotifyPublish 0 0, Confirm 0 False] \<and> inSync 0 0 0 t"
proof -
  let ?run = "Publisher_setup demoLib 0 (Some (AmqpChannel 0)) ''svc'' ''ex'' None None None [] demoIO"
  have "fst ?run = Ok ()" by (simp add: Publisher_setup_run Let_def run_simps)
  moreover from this Publisher_setup_ready [OF _ _ surjective_pairing, of demoIO 0 demoLib 0 "''svc''" "''ex''"
      None None None "[]"]
  have "calls (snd ?run) = [NotifyPublish 0 0, Confirm 0 False]" "inSync 0 0 0 (snd ?run)" by auto
  ultimately show ?thesis by (metis prod.collapse)
qed


subsection \<open>Confirmations that are not the publisher's own\<close>


text \<open>A broker that answers late: nothing while the first message is waited for, then both answers.\<close>

definition lateLib :: lib where
  "lateLib = demoLib\<lparr>
     arrivals := (\<lambda>h q. if length h < 2 then []
       else [\<lparr>DeliveryTag = 1, Ack = True\<rparr>, \<lparr>DeliveryTag = 2, Ack = False\<rparr>]),
     ctxErr := (\<lambda>h c. if c = UserCtx ''deadline'' then Some ''context deadline exceeded'' else None)\<rparr>"


text \<open>The library delivers confirmations only to channels registered with \<open>NotifyPublish\<close>.\<close>

definition confirms_registered_only :: "lib \<Rightarrow> bool" where
  "confirms_registered_only L \<longleftrightarrow> (\<forall>h q. (\<forall>n. NotifyPublish n q \<notin> set h) \<longrightarrow> arrivals L h q = [])"

text \<open>
  C30: the options \<open>WithConfirm\<close> and \<open>WithoutPublisherConfirms\<close> together make
  \<open>Publish\<close> wait forever. Setup then neither registers the channel for confirmations nor switches on
  confirm mode, but \<open>Publish\<close> still waits on it: with a library that delivers confirmations only
  to registered channels, the call does not return after a message the broker accepted, unless its
  context is cancelled.
\<close>

theorem Publish_blocks_unregistered:
  assumes lib: "confirms_registered_only L" "never_cancelled L c"
    and opts: "pubs s p = NewPublisher [WithConfirm q, WithoutPublisherConfirms]"
    and none: "\<forall>n. NotifyPublish n q \<notin> set (calls s)" "confirmQ s q = []"
    and wiring: "Publisher_setup L p (Some (AmqpChannel n)) svc exch tr prop nameFn [] s = (Ok (), t)"
    and send: "marshal msg = Inr body" "validateKeys hs = None"
      "\<forall>call. isPublishOn n call \<longrightarrow> amqpErr L (calls t) call = None"
  shows "calls t = calls s \<and> fst (Publish L c p rk marshal msg hs t) = Blocked"
proof -
  have pub: "confirmCh (pubs s p) = Some q" "noConfirm (pubs s p)"
    by (simp_all add: opts NewPublisher_def WithConfirm_def WithoutPublisherConfirms_def)
  with wiring have t: "calls t = calls s" "confirmQ t = confirmQ s"
    "channel (pubs t p) = Some (AmqpChannel n)" "confirmCh (pubs t p) = Some q"
    unfolding Publisher_setup_run [OF validateKeys.simps(1)] by (auto simp: Let_def)
  define call where "call = publishCall L t c (pubPropagator (pubs t p)) rk (exchange (pubs t p))
      (pubServiceName (pubs t p)) body (publishTable (pubs t p) hs) n"
  have "amqpErr L (calls t) call = None"
    using send(3) by (simp add: call_def publishCall_def)
  then obtain s1 where s1: "Publish L c p rk marshal msg hs t = waitConfirm L c (Some q)
      (''broker nacked publish to '' @ exchange (pubs t p) @ ''/'' @ rk) ''context cancelled waiting for publish confirm: '' s1"
    "calls s1 = calls t @ [call]" "confirmQ s1 = confirmQ t"
    using Publish_accepted [where marshal = marshal, OF send(2) refl t(3) send(1) call_def] t(4) by auto
  have "\<forall>n. NotifyPublish n q \<notin> set (calls s1)"
    using none(1) s1(2) t(1) by (simp add: call_def publishCall_def)
  with lib(1) have "arrivals L (calls s1) q = []" by (simp add: confirms_registered_only_def)
  with waitConfirm_nothing [of s1 q L] s1 t none(2) lib(2) show ?thesis
    by (simp add: never_cancelled_def)
qed

definition quietLib :: lib where
  "quietLib = demoLib\<lparr>arrivals := (\<lambda>_ _. [])\<rparr>"

definition unregisteredIO :: io where
  "unregisteredIO = demoIO\<lparr>pubs := (\<lambda>_. NewPublisher [WithConfirm 0, WithoutPublisherConfirms])\<rparr>"

theorem Publish_blocks_unregistered_witness:
  "fst (Publish quietLib Background 0 ''k'' Inr ''{}'' []
     (snd (Publisher_setup quietLib 0 (Some (AmqpChannel 0)) ''svc'' ''ex'' None None None [] unregisteredIO))) = Blocked"
proof -
  let ?run = "Publisher_setup quietLib 0 (Some (AmqpChannel 0)) ''svc'' ''ex'' None None None [] unregisteredIO"
  have "fst ?run = Ok ()"
    by (simp add: Publisher_setup_run Let_def run_simps unregisteredIO_def NewPublisher_def WithConfirm_def
        WithoutPublisherConfirms_def)
  then have run: "?run = (Ok (), snd ?run)" by (metis prod.collapse)
  show ?thesis
    by (rule conjunct2 [OF Publish_blocks_unregistered [where marshal = Inr and msg = "''{}''" and q = 0, OF _ _ _ _ _ run]])
      (simp_all add: quietLib_def unregisteredIO_def confirms_registered_only_def never_cancelled_def)
qed

end
