(* ===== verification/Outbox.thy ===== *)
theory Outbox
  imports Publisher_Confirm
begin

text \<open>
  The outbox adapter, \<open>outbox_adapter.go\<close>: \<open>PublishRaw\<close> sends a message that is already
  serialized, with the headers of the outbox record, over the channel of an ordinary publisher. It
  takes the publisher's mutex like \<open>Publish\<close>, so the calls of both kinds from all goroutines on
  one publisher form one sequence. The locale \<open>confirmed_sender\<close> states what one such call
  promises of confirmations and derives the behaviour of sequences; both kinds of calls are
  interpreted together.
\<close>

definition outboxKey :: "lib \<Rightarrow> string \<Rightarrow> string" where
  "outboxKey L k = (if HasPrefix k ''ce-'' then AMQPCEHeaderKey L (TrimPrefix k ''ce-'') else k)"

text \<open>The loop over the headers, in the order in which \<open>range\<close> visits them.\<close>

definition outboxTable :: "lib \<Rightarrow> (string, string) gomap \<Rightarrow> table" where
  "outboxTable L headers = fold (\<lambda>(k, v) t. AList.update (outboxKey L k) (GStr v) t) headers []"

definition outboxMessage :: "lib \<Rightarrow> string \<Rightarrow> (string, string) gomap \<Rightarrow> publishing" where
  "outboxMessage L payload headers =
     \<lparr>Body = payload, ContentType = contentType, DeliveryMode = 2, Headers = outboxTable L headers\<rparr>"

definition PublishRaw ::
  "lib \<Rightarrow> ctx \<Rightarrow> nat \<Rightarrow> string \<Rightarrow> string \<Rightarrow> (string, string) gomap \<Rightarrow> (io, unit) M" where
  "PublishRaw L c p routingKey payload headers =
     bindM (getM (\<lambda>s. pubs s p)) (\<lambda>pub.
     if channel pub = None then failM (ErrText ''amqp outbox: publisher not initialized'')
     else
       thenM (wrapM (''amqp outbox: publish to '' @ exchange pub @ ''/'' @ routingKey @ '': '')
         (chPublishWithContext L (channel pub) c (exchange pub) routingKey False False
           (outboxMessage L payload headers)))
       (waitConfirm L c (confirmCh pub)
         (''broker nacked outbox publish to '' @ exchange pub @ ''/'' @ routingKey)
         ''context cancelled waiting for outbox publish confirm: ''))"


subsection \<open>The headers\<close>

text \<open>Two headers of a map meet under one name on the wire.\<close>

definition collides :: "lib \<Rightarrow> (string, string) gomap \<Rightarrow> bool" where
  "collides L headers \<longleftrightarrow> \<not> inj_on (outboxKey L) (set (gokeys headers))"

lemma map_of_outbox_fold:
  "inj_on (outboxKey L) (set (gokeys headers)) \<Longrightarrow> distinct (gokeys headers) \<Longrightarrow> k \<in> set (gokeys headers) \<Longrightarrow>
   map_of (fold (\<lambda>(k, v) t. AList.update (outboxKey L k) (GStr v) t) headers t) (outboxKey L k) =
     map_option GStr (map_of headers k)"
proof (induction headers arbitrary: t)
  case (Cons x xs)
  obtain k' v where x: "x = (k', v)" by fastforce
  have other: "map_of (fold (\<lambda>(k, v) t. AList.update (outboxKey L k) (GStr v) t) ys u) w = map_of u w"
    if "w \<notin> outboxKey L ` set (gokeys ys)" for ys u w
    using that by (induction ys arbitrary: u) auto
  show ?case
  proof (cases "k = k'")
    case True
    with Cons.prems(1,2) have "outboxKey L k' \<notin> outboxKey L ` set (gokeys xs)"
      by (auto simp: x inj_on_def)
    with True show ?thesis by (simp add: x other)
  next
    case False
    with Cons show ?thesis by (simp add: x inj_on_def)
  qed
qed simp

lemma outboxTable_keys:
  "map_of (outboxTable L headers) w \<noteq> None \<longleftrightarrow> w \<in> outboxKey L ` set (gokeys headers)"
proof -
  have "map_of (fold (\<lambda>(k, v) t. AList.update (outboxKey L k) (GStr v) t) headers u) w \<noteq> None
      \<longleftrightarrow> w \<in> outboxKey L ` set (gokeys headers) \<or> map_of u w \<noteq> None" for u
    by (induction headers arbitrary: u) (auto split: if_splits)
  then show ?thesis by (simp add: outboxTable_def)
qed



text \<open>
  With both \<open>ce-a\<close> and \<open>cloudEvents:a\<close> in the record, the header that is visited last wins: the
  message depends on the order in which Go happens to visit the map.
\<close>

lemma outboxTable_order_dependent:
  assumes "ce_wire_format L" and "v \<noteq> w"
  shows "same_map [(''ce-'' @ a, v), (''cloudEvents:'' @ a, w)] [(''cloudEvents:'' @ a, w), (''ce-'' @ a, v)]"
    and "map_of (outboxTable L [(''ce-'' @ a, v), (''cloudEvents:'' @ a, w)])
      \<noteq> map_of (outboxTable L [(''cloudEvents:'' @ a, w), (''ce-'' @ a, v)])"
  using assms
  by (auto simp: same_map_def gomap_ok_def fun_eq_iff outboxTable_def outboxKey_def ce_wire_format_def)


subsection \<open>PublishRaw\<close>

lemma PublishRaw_nil_channel:
  "channel (pubs s p) = None \<Longrightarrow>
   PublishRaw L c p rk payload headers s = (Err (ErrText ''amqp outbox: publisher not initialized''), s)"
  by (simp add: PublishRaw_def run_simps)

definition rawCall :: "lib \<Rightarrow> publisher \<Rightarrow> ctx \<Rightarrow> string \<Rightarrow> string \<Rightarrow> (string, string) gomap \<Rightarrow> nat \<Rightarrow> amqpCall" where
  "rawCall L pub c rk payload headers n =
     PublishWithContext n c (exchange pub) rk False False (outboxMessage L payload headers)"

lemma PublishRaw_run:
  assumes "channel (pubs s p) = Some (AmqpChannel n)" and "pub = pubs s p"
    and "call = rawCall L pub c rk payload headers n"
  shows "PublishRaw L c p rk payload headers s =
    (case amqpErr L (calls s) call of
       Some e \<Rightarrow> (Err (ErrWrap (''amqp outbox: publish to '' @ exchange pub @ ''/'' @ rk @ '': '') (ErrText e)),
          s\<lparr>calls := calls s @ [call]\<rparr>)
     | None \<Rightarrow> waitConfirm L c (confirmCh pub) (''broker nacked outbox publish to '' @ exchange pub @ ''/'' @ rk)
          ''context cancelled waiting for outbox publish confirm: '' (s\<lparr>calls := calls s @ [call]\<rparr>))"
  using assms
  by (simp add: PublishRaw_def bindM_Ok [OF getM_run] rawCall_def channel_op_defs)
    (simp add: bindM_run wrapM_run invoke_run split: option.split)

lemma PublishRaw_in_sync:
  assumes lib: "confirms_in_order L n q" "never_cancelled L c" and sync: "inSync p n q s"
    and run: "PublishRaw L c p rk payload headers s = (r, t)"
  shows "inSync p n q t \<and> (r = Ok () \<longleftrightarrow> confirmedOwn L n q s t) \<and> (r = Ok () \<or> (\<exists>e. r = Err e))"
proof -
  define pub where "pub = pubs s p"
  define call where "call = rawCall L pub c rk payload headers n"
  define s1 where "s1 = s\<lparr>calls := calls s @ [call]\<rparr>"
  have pub: "channel (pubs s p) = Some (AmqpChannel n)" "confirmCh pub = Some q" "confirmQ s q = []"
    using sync by (simp_all add: inSync_def pub_def)
  have onN: "isPublishOn n call" by (simp add: call_def rawCall_def)
  show ?thesis
  proof (cases "amqpErr L (calls s) call")
    case (Some e)
    with PublishRaw_run [OF pub(1) pub_def call_def] run sync show ?thesis
      by (auto simp: inSync_def confirmedOwn_def)
  next
    case None
    then have wait: "(r, t) = waitConfirm L c (Some q) (''broker nacked outbox publish to '' @ exchange pub @ ''/'' @ rk)
        ''context cancelled waiting for outbox publish confirm: '' s1"
      using PublishRaw_run [OF pub(1) pub_def call_def] run pub(2) by (simp add: s1_def)
    obtain ack where ack: "arrivals L (calls s1) q = [\<lparr>DeliveryTag = acceptedOn L n (calls s1), Ack = ack\<rparr>]"
      using lib(1) onN None by (auto simp: confirms_in_order_def s1_def)
    have "ctxErr L (calls s1) c = None" using lib(2) by (simp add: never_cancelled_def)
    from waitConfirm_uncancelled [OF this, of q] wait ack pub(3)
    have "t = s1\<lparr>confirmQ := (confirmQ s1)(q := [])\<rparr>" "r = Ok () \<longleftrightarrow> ack" "r = Ok () \<or> (\<exists>e. r = Err e)"
      by (auto simp: s1_def split: if_splits)
    then show ?thesis using ack sync None onN by (auto simp: inSync_def confirmedOwn_def s1_def)
  qed
qed


subsection \<open>Sequences of publishes on one publisher\<close>

fun sendAll :: "('r \<Rightarrow> (io, unit) M) \<Rightarrow> 'r list \<Rightarrow> io \<Rightarrow> unit res list \<times> io" where
  "sendAll send [] s = ([], s)"
| "sendAll send (r # rs) s =
     (let (x, s1) = send r s; (xs, s2) = sendAll send rs s1 in (x # xs, s2))"

text \<open>
  A sender on publisher \<open>p\<close>, channel \<open>n\<close> and confirm channel \<open>q\<close>: every allowed request,
  sent while no confirmation is unread, returns, reports the confirmation of its own message and
  leaves no confirmation unread.
\<close>

locale confirmed_sender =
  fixes send :: "'r \<Rightarrow> (io, unit) M" and allowed :: "'r \<Rightarrow> bool"
    and L :: lib and p n q :: nat
  assumes send_in_sync: "allowed r \<Longrightarrow> inSync p n q s \<Longrightarrow> send r s = (x, t) \<Longrightarrow>
      inSync p n q t \<and> (x = Ok () \<longleftrightarrow> confirmedOwn L n q s t) \<and> (x = Ok () \<or> (\<exists>e. x = Err e))"
begin

lemma sendAll_in_sync:
  "list_all allowed rs \<Longrightarrow> inSync p n q s \<Longrightarrow> sendAll send rs s = (out, t) \<Longrightarrow> inSync p n q t"
  by (induction rs arbitrary: s out) (auto split: prod.splits dest: send_in_sync)

lemma sendAll_returns:
  "list_all allowed rs \<Longrightarrow> inSync p n q s \<Longrightarrow> sendAll send rs s = (out, t) \<Longrightarrow>
   list_all (\<lambda>x. x = Ok () \<or> (\<exists>e. x = Err e)) out"
proof (induction rs arbitrary: s out)
  case (Cons r rs)
  obtain x s1 where run: "send r s = (x, s1)" by fastforce
  obtain xs where "sendAll send rs s1 = (xs, t)" "out = x # xs"
    using Cons.prems(3) run by (auto split: prod.splits)
  with Cons run send_in_sync [OF _ Cons.prems(2) run] show ?case by auto
qed simp

lemma next_reports_own:
  assumes "list_all allowed rs" "inSync p n q s" "sendAll send rs s = (out, s')"
    and "allowed r" "send r s' = (x, t)"
  shows "inSync p n q t \<and> (x = Ok () \<longleftrightarrow> confirmedOwn L n q s' t) \<and> (x = Ok () \<or> (\<exists>e. x = Err e))"
  by (rule send_in_sync [OF assms(4) sendAll_in_sync [OF assms(1-3)] assms(5)])

end

datatype 'm publishOp =
    PublishOp (opCtx: ctx) string 'm "header list"
  | RawOp (opCtx: ctx) string string "(string, string) gomap"

fun runOp :: "lib \<Rightarrow> nat \<Rightarrow> ('m \<Rightarrow> string + string) \<Rightarrow> 'm publishOp \<Rightarrow> (io, unit) M" where
  "runOp L p marshal (PublishOp c rk msg hs) = Publish L c p rk marshal msg hs"
| "runOp L p marshal (RawOp c rk payload hs) = PublishRaw L c p rk payload hs"

definition opAllowed :: "lib \<Rightarrow> nat \<Rightarrow> nat \<Rightarrow> 'm publishOp \<Rightarrow> bool" where
  "opAllowed L n q r \<longleftrightarrow> confirms_in_order L n q \<and> never_cancelled L (opCtx r)"

interpretation ops: confirmed_sender "runOp L p marshal" "opAllowed L n q" L p n q
  for L :: lib and p n q :: nat and marshal :: "'m \<Rightarrow> string + string"
proof (unfold_locales, goal_cases)
  case (1 r s x t)
  then show ?case
    by (cases r) (auto simp: opAllowed_def dest: Publish_in_sync PublishRaw_in_sync)
qed



end
