(* ===== verification/Setup_Functions.thy ===== *)
theory Setup_Functions
  imports Connection Outbox
begin

text \<open>
  The setup functions a program passes to \<open>Start\<close>: publishers (\<open>setup_publisher.go\<close>), consumers
  (\<open>setup_consumer.go\<close>) and the request-response handler (\<open>request_response.go\<close>), and
  \<open>CollectTopology\<close> (\<open>topology_export.go\<close>), which runs them on the no-op channel.
\<close>

definition packageSetup :: "string \<Rightarrow> (world, unit) M \<Rightarrow> setupFn" where
  "packageSetup name m = \<lparr>setupName = packagePath @ ''.'' @ name @ ''.func1'', runSetup = m\<rparr>"


subsection \<open>Publishers\<close>

definition publisherEndpoint :: "pattern \<Rightarrow> string \<Rightarrow> exchangeKind \<Rightarrow> endpoint" where
  "publisherEndpoint pat exch kind = \<lparr>Direction = DirectionPublish, Pattern = pat, ExchangeName = exch,
     ExchangeKind = kind, QueueName = [], epRoutingKey = [], MessageType = [], Ephemeral = False\<rparr>"

definition streamPattern :: "string \<Rightarrow> pattern" where
  "streamPattern exch = (if exch \<noteq> defaultEventExchangeName then PatternCustomStream else PatternEventStream)"

definition setupPublisher :: "lib \<Rightarrow> nat \<Rightarrow> amqpChannel \<Rightarrow> string \<Rightarrow> header list \<Rightarrow> (world, unit) M" where
  "setupPublisher L p ch exchangeName headers =
     bindM (getM conn) (\<lambda>c.
       liftW (Publisher_setup L p (Some ch) (serviceName c) exchangeName (Some (connTracer L c))
         (connPropagator c) (publishSpanNameFn c) headers))"

definition StreamPublisher :: "lib \<Rightarrow> string \<Rightarrow> nat \<Rightarrow> setupFn" where
  "StreamPublisher L exch p = packageSetup ''StreamPublisher''
     (let exchangeName = topicExchangeName exch in
      bindM (getM conn) (\<lambda>c.
      thenM (wrapM (''failed to declare exchange '' @ exchangeName @ '', '')
        (liftW (exchangeDeclare L (setupChannel c) exchangeName ExchangeTopic)))
      (bindM (wrapM ''failed to create publisher channel: '' (liftW (connChannel L (connection c)))) (\<lambda>ch.
       thenM useLogger
       (thenM (addEndpoint (publisherEndpoint (streamPattern exch) exchangeName KindTopic))
       (setupPublisher L p ch exchangeName []))))))"

definition EventStreamPublisher :: "lib \<Rightarrow> nat \<Rightarrow> setupFn" where
  "EventStreamPublisher L p = StreamPublisher L defaultEventExchangeName p"

definition QueuePublisher :: "lib \<Rightarrow> nat \<Rightarrow> string \<Rightarrow> setupFn" where
  "QueuePublisher L p destinationQueueName = packageSetup ''QueuePublisher''
     (bindM (getM conn) (\<lambda>c.
      bindM (wrapM ''failed to create publisher channel: '' (liftW (connChannel L (connection c)))) (\<lambda>ch.
      thenM (addEndpoint ((publisherEndpoint PatternQueuePublish ''(default)'' KindUnset)
        \<lparr>QueueName := destinationQueueName\<rparr>))
      (setupPublisher L p ch [] [\<lparr>headerKey = ''CC'', headerValue = GList [GStr destinationQueueName]\<rparr>]))))"

definition ServicePublisher :: "lib \<Rightarrow> string \<Rightarrow> nat \<Rightarrow> setupFn" where
  "ServicePublisher L targetService p = packageSetup ''ServicePublisher''
     (let exchangeName = serviceRequestExchangeName targetService in
      bindM (getM conn) (\<lambda>c.
      thenM (liftW (exchangeDeclare L (setupChannel c) exchangeName ExchangeDirect))
      (bindM (wrapM ''failed to create publisher channel: '' (liftW (connChannel L (connection c)))) (\<lambda>ch.
       thenM useLogger
       (thenM (addEndpoint (publisherEndpoint PatternServiceRequest exchangeName KindDirect))
       (setupPublisher L p ch exchangeName []))))))"


subsection \<open>Consumers\<close>

definition consumerEndpoint ::
  "pattern \<Rightarrow> exchangeKind \<Rightarrow> string \<Rightarrow> string \<Rightarrow> bool \<Rightarrow> consumerConfig \<Rightarrow> endpoint" where
  "consumerEndpoint pat kind routingKey tname ephemeral config =
     \<lparr>Direction = DirectionConsume, Pattern = pat, ExchangeName = cfgExchangeName config, ExchangeKind = kind,
      QueueName = cfgQueueName config, epRoutingKey = routingKey, MessageType = tname, Ephemeral = ephemeral\<rparr>"

text \<open>The last steps of every consumer setup: bind, and announce the endpoint.\<close>

definition bindConsumer ::
  "lib \<Rightarrow> goerr + consumerConfig \<Rightarrow> (consumerConfig \<Rightarrow> endpoint) \<Rightarrow> (world, unit) M" where
  "bindConsumer L config endpoint =
     (case config of
        Inl err \<Rightarrow> failM err
      | Inr cfg \<Rightarrow> thenM (messageHandlerBindQueueToExchange L cfg) (addEndpoint (endpoint cfg)))"

definition StreamConsumer ::
  "lib \<Rightarrow> string \<Rightarrow> string \<Rightarrow> 'a gotype \<Rightarrow> 'a eventHandler \<Rightarrow> consumerOption list \<Rightarrow> setupFn" where
  "StreamConsumer L exch routingKey T handler opts = packageSetup ''StreamConsumer[...]''
     (let exchangeName = topicExchangeName exch in
      bindM (getM conn) (\<lambda>c.
      bindConsumer L
        (newConsumerConfig L routingKey exchangeName (serviceEventQueueName exchangeName (serviceName c))
          ExchangeTopic (newWrappedHandler T handler) opts)
        (consumerEndpoint (streamPattern exch) KindTopic routingKey (typeName T) False)))"

definition EventStreamConsumer ::
  "lib \<Rightarrow> string \<Rightarrow> 'a gotype \<Rightarrow> 'a eventHandler \<Rightarrow> consumerOption list \<Rightarrow> setupFn" where
  "EventStreamConsumer L routingKey T handler opts =
     StreamConsumer L defaultEventExchangeName routingKey T handler opts"

text \<open>The option appended by \<open>TransientStreamConsumer\<close>: unused queues expire after a second.\<close>

definition transientTTL :: "lib \<Rightarrow> consumerOption" where
  "transientTTL L = \<lparr>optionName = packagePath @ ''.TransientStreamConsumer[...].func1.1'',
     applyOption = (\<lambda>config. Inr (setQueueHeader (QueueTTLArg L) (GInt 1000) config))\<rparr>"

definition TransientStreamConsumer ::
  "lib \<Rightarrow> string \<Rightarrow> string \<Rightarrow> 'a gotype \<Rightarrow> 'a eventHandler \<Rightarrow> consumerOption list \<Rightarrow> setupFn" where
  "TransientStreamConsumer L exch routingKey T handler opts = packageSetup ''TransientStreamConsumer[...]''
     (let exchangeName = topicExchangeName exch in
      bindM (getM conn) (\<lambda>c.
      bindM (liftW (uuidNew L)) (\<lambda>random.
      bindConsumer L
        (newConsumerConfig L routingKey exchangeName
          (serviceEventRandomQueueName exchangeName (serviceName c) random)
          ExchangeTopic (newWrappedHandler T handler) (opts @ [transientTTL L]))
        (consumerEndpoint (streamPattern exch) KindTopic routingKey (typeName T) True))))"

definition TransientEventStreamConsumer ::
  "lib \<Rightarrow> string \<Rightarrow> 'a gotype \<Rightarrow> 'a eventHandler \<Rightarrow> consumerOption list \<Rightarrow> setupFn" where
  "TransientEventStreamConsumer L routingKey T handler opts =
     TransientStreamConsumer L defaultEventExchangeName routingKey T handler opts"

text \<open>The option appended by \<open>ServiceResponseConsumer\<close>: bind for the own service.\<close>

definition bindService :: "string \<Rightarrow> consumerOption" where
  "bindService svc = \<lparr>optionName = packagePath @ ''.ServiceResponseConsumer[...].func1.1'',
     applyOption = (\<lambda>config. Inr (config\<lparr>cfgQueueBindingHeaders :=
       AList.update headerService (GStr svc) (cfgQueueBindingHeaders config)\<rparr>))\<rparr>"

definition responseConfig ::
  "lib \<Rightarrow> string \<Rightarrow> string \<Rightarrow> string \<Rightarrow> wrappedHandler \<Rightarrow> consumerOption list \<Rightarrow> goerr + consumerConfig" where
  "responseConfig L targetService svc routingKey h opts =
     newConsumerConfig L routingKey (serviceResponseExchangeName targetService)
       (serviceResponseQueueName targetService svc) ExchangeHeaders h (opts @ [bindService svc])"

definition ServiceResponseConsumer ::
  "lib \<Rightarrow> string \<Rightarrow> string \<Rightarrow> 'a gotype \<Rightarrow> 'a eventHandler \<Rightarrow> consumerOption list \<Rightarrow> setupFn" where
  "ServiceResponseConsumer L targetService routingKey T handler opts =
     packageSetup ''ServiceResponseConsumer[...]''
     (bindM (getM conn) (\<lambda>c.
      bindConsumer L
        (responseConfig L targetService (serviceName c) routingKey (newWrappedHandler T handler) opts)
        (consumerEndpoint PatternServiceResponse KindHeaders routingKey (typeName T) False)))"

definition ServiceRequestConsumer ::
  "lib \<Rightarrow> string \<Rightarrow> 'a gotype \<Rightarrow> 'a eventHandler \<Rightarrow> consumerOption list \<Rightarrow> setupFn" where
  "ServiceRequestConsumer L routingKey T handler opts = packageSetup ''ServiceRequestConsumer[...]''
     (bindM (getM conn) (\<lambda>c.
      let resExchangeName = serviceResponseExchangeName (serviceName c) in
      thenM (wrapM (''failed to create exchange '' @ resExchangeName @ '', '')
        (liftW (exchangeDeclare L (setupChannel c) resExchangeName ExchangeHeaders)))
      (bindConsumer L
        (newConsumerConfig L routingKey (serviceRequestExchangeName (serviceName c))
          (serviceRequestQueueName (serviceName c)) ExchangeDirect (newWrappedHandler T handler) opts)
        (consumerEndpoint PatternServiceRequest KindDirect routingKey (typeName T) False))))"


subsection \<open>Request and response\<close>

definition sendingService :: "lib \<Rightarrow> deliveryInfo \<Rightarrow> goerr + string" where
  "sendingService L di =
     (case map_of (infoHeaders di) headerService of
        None \<Rightarrow> Inl (ErrText (''no \"service\" header in message from exchange '' @ Source di
          @ '' (routing key: '' @ Key di @ '')''))
      | Some (GStr v) \<Rightarrow> Inr v
      | Some h \<Rightarrow> Inl (ErrText (''\"service\" header has unexpected type '' @ typeNameOf L h
          @ '', want string, in message from exchange '' @ Source di @ '' (routing key: '' @ Key di @ '')'')))"

definition responseWrapper ::
  "lib \<Rightarrow> (ctx \<Rightarrow> 'a consumableEvent \<Rightarrow> (io, 'r) M) \<Rightarrow> string
     \<Rightarrow> (ctx \<Rightarrow> string \<Rightarrow> string \<Rightarrow> 'r \<Rightarrow> (io, unit) M) \<Rightarrow> 'a eventHandler" where
  "responseWrapper L handler routingKey publish c event =
     bindM (wrapM ''failed to process message, '' (handler c event)) (\<lambda>resp.
     case sendingService L (evDeliveryInfo event) of
       Inl err \<Rightarrow> failM (ErrWrap ''failed to extract service name, '' err)
     | Inr service \<Rightarrow> wrapM ''failed to publish response, '' (publish c service routingKey resp))"

definition RequestResponseHandler ::
  "lib \<Rightarrow> string \<Rightarrow> 'a gotype \<Rightarrow> ('r \<Rightarrow> string + string) \<Rightarrow> (ctx \<Rightarrow> 'a consumableEvent \<Rightarrow> (io, 'r) M)
     \<Rightarrow> setupFn" where
  "RequestResponseHandler L routingKey T marshal handler =
     packageSetup ''RequestResponseHandler[...]''
       (runSetup (ServiceRequestConsumer L routingKey T
         (responseWrapper L handler routingKey
           (\<lambda>c targetService routingKey msg. PublishServiceResponse L c targetService routingKey marshal msg)) []))"


subsection \<open>CollectTopology\<close>

definition collectCore :: "string \<Rightarrow> connCore" where
  "collectCore svc =
     \<lparr>started = False, serviceName = svc, amqpUri = [], connection = Some NoopConnection,
      setupChannel = Some NoopChannel, responseChannel = None, notificationCh = None, errorCh = None,
      spanNameFn = None, publishSpanNameFn = None, consumerChannels = [], closeListener = None,
      prefetchLimit = 0, logger = Some (Logger DiscardLog []), topology = newTopology svc, tracerProvider = None, connPropagator = None,
      legacySupport = False\<rparr>"

definition collectWorld :: "string \<Rightarrow> io \<Rightarrow> world" where
  "collectWorld svc s = \<lparr>wio = s\<lparr>core := collectCore svc\<rparr>, registry = Some newQueueConsumers, loops = []\<rparr>"

text \<open>The connection made here is a new object; the caller's state keeps its own.\<close>

definition CollectTopology :: "string \<Rightarrow> setupFn list \<Rightarrow> (io, topology) M" where
  "CollectTopology svc setups s =
     (case forM runSetup setups (collectWorld svc s) of
        (Ok u, w) \<Rightarrow> (Ok (topology (conn w)), (wio w)\<lparr>core := core s\<rparr>)
      | (Err e, w) \<Rightarrow> (Err e, (wio w)\<lparr>core := core s\<rparr>)
      | (Panic p, w) \<Rightarrow> (Panic p, (wio w)\<lparr>core := core s\<rparr>)
      | (Blocked, w) \<Rightarrow> (Blocked, (wio w)\<lparr>core := core s\<rparr>))"

end
