(* ===== verification/Request_Response.thy ===== *)
theory Request_Response
  imports Setup_Functions
begin

text \<open>
  The request-response pattern (\<open>request_response.go\<close>) with the exchanges and bindings the setup
  functions declare: a response carries the requesting service in its header \<open>service\<close>, and the queue
  of each \<open>ServiceResponseConsumer\<close> is bound with its own service name in that header. Whether a
  headers exchange routes a message to a queue is \<open>headersMatch\<close>: every argument of the binding,
  those with the prefix \<open>x-\<close> aside, is a header of the message (the default \<open>x-match: all\<close>).
\<close>

definition headersMatch :: "table \<Rightarrow> table \<Rightarrow> bool" where
  "headersMatch args headers \<longleftrightarrow>
     list_all (\<lambda>(k, v). HasPrefix k ''x-'' \<or> map_of headers k = Some v) args"

lemma responseConfig_binding:
  assumes "list_all queue_option opts" and "responseConfig L target svc rk h opts = Inr cfg"
  shows "cfgExchangeName cfg = serviceResponseExchangeName target"
    and "cfgQueueBindingHeaders cfg = [(headerService, GStr svc)]"
    and "cfgKind cfg = ExchangeHeaders"
proof -
  let ?base = "\<lparr>cfgRoutingKey = rk, cfgHandler = h, cfgQueueName = serviceResponseQueueName target svc,
    cfgExchangeName = serviceResponseExchangeName target, cfgKind = ExchangeHeaders,
    cfgQueueHeaders = defaultQueueOpts L, cfgQueueBindingHeaders = []\<rparr>"
  from assms(2) obtain cfg0 where cfg0: "applyOptions opts ?base = Inr cfg0"
    and cfg: "applyOptions [bindService svc] cfg0 = Inr cfg"
    by (auto simp: responseConfig_def newConsumerConfig_def applyOptions_append split: sum.splits)
  from applyOptions_keep [OF assms(1) cfg0] cfg
  show "cfgExchangeName cfg = serviceResponseExchangeName target"
    "cfgQueueBindingHeaders cfg = [(headerService, GStr svc)]" "cfgKind cfg = ExchangeHeaders"
    by (auto simp: bindService_def)
qed

lemma binding_matches:
  "headersMatch [(headerService, GStr svc)] headers \<longleftrightarrow> map_of headers headerService = Some (GStr svc)"
  by (simp add: headersMatch_def headerService_def)


lemma responses_routed:
  assumes "map_of headers headerService = Some (GStr a)" "list_all queue_option opts" "responseConfig L b x rk h opts = Inr cfg"
  shows "cfgExchangeName cfg = serviceResponseExchangeName b
    \<and> (headersMatch (cfgQueueBindingHeaders cfg) headers \<longleftrightarrow> x = a)"
  using responseConfig_binding [OF assms(2,3)] assms(1) by (auto simp: binding_matches)

lemma responseWrapper_Ok:
  assumes "responseWrapper L handler rk publish c ev s = (Ok (), t)"
  obtains resp s1 a where "handler c ev s = (Ok resp, s1)" "sendingService L (evDeliveryInfo ev) = Inr a"
    "publish c a rk resp s1 = (Ok (), t)"
proof (cases "handler c ev s")
  case (Pair r s1)
  with assms that show thesis
    by (cases r) (auto simp: responseWrapper_def bindM_run wrapM_run failM_run split: sum.splits res.splits prod.splits)
qed


subsection \<open>Publishing a response\<close>

text \<open>The response as \<open>PublishServiceResponse\<close> sends it.\<close>

lemma PublishServiceResponse_Ok:
  assumes lib: "ce_wire_format L" "propagates_fields (propagatorOrGlobal L (connPropagator (core s))) F" "headerService \<notin> F"
    and ch: "responseChannel (core s) = Some (AmqpChannel n)"
    and run: "PublishServiceResponse L c a rk marshal msg s = (Ok (), t)"
  shows "\<exists>m. marshal msg = Inr (Body m)
    \<and> calls t = calls s @ [PublishWithContext n (SpanCtx c (nextSpan s))
        (serviceResponseExchangeName (serviceName (core s))) rk False False m]
    \<and> map_of (Headers m) headerService = Some (GStr a)"
proof -
  let ?h = "[(headerService, GStr a)]" and ?svc = "serviceName (core s)"
  from run have pub: "publishMessage L c (Some (connTracer L (core s))) (connPropagator (core s)) None (Some (AmqpChannel n))
      marshal msg rk (serviceResponseExchangeName ?svc) ?svc (Some ?h) s = (Ok (), t)"
    using ch by (simp add: PublishServiceResponse_def bindM_run getM_run)
  then obtain body where body: "marshal msg = Inr body"
    by (cases "marshal msg") (auto simp: publishMessage_marshal_error)
  let ?m = "wireMessage L s c (connPropagator (core s)) rk ?svc body ?h"
  have "calls t = calls s @ [PublishWithContext n (SpanCtx c (nextSpan s)) (serviceResponseExchangeName ?svc) rk False False ?m]"
    using publishMessage_on_channel(2) [OF body pub] by (simp add: publishCall_def tableOf_def)
  moreover have "map_of (Headers ?m) headerService = Some (GStr a)"
    by (rule wireMessage_service [OF lib]) simp
  ultimately show ?thesis using body by (intro exI [of _ ?m]) (simp add: wireMessage_def)
qed

definition respond :: "lib \<Rightarrow> ('r \<Rightarrow> string + string) \<Rightarrow> ctx \<Rightarrow> string \<Rightarrow> string \<Rightarrow> 'r \<Rightarrow> (io, unit) M" where
  "respond L marshal = (\<lambda>c targetService routingKey msg. PublishServiceResponse L c targetService routingKey marshal msg)"

text \<open>
  C39: a response reaches the service that asked, and no other. When a request-response
  handler succeeds on a request whose header \<open>service\<close> names \<open>a\<close>, exactly one message is published
  after the user's handler ran, on the response exchange of the answering service \<open>b\<close> and
  with the routing key of the handler; among all queues that any service \<open>x\<close> binds to that
  exchange with \<open>ServiceResponseConsumer\<close> for \<open>b\<close>, the headers exchange routes it to those of \<open>x = a\<close> only.
\<close>

theorem response_reaches_requester:
  assumes lib: "ce_wire_format L" "propagates_fields (propagatorOrGlobal L (connPropagator (core s1))) F" "headerService \<notin> F"
    and user: "handler c ev s = (Ok resp, s1)" and from_a: "sendingService L (evDeliveryInfo ev) = Inr a"
    and conn: "serviceName (core s1) = b" "responseChannel (core s1) = Some (AmqpChannel n)"
    and run: "responseWrapper L handler rk (respond L marshal) c ev s = (Ok (), t)"
  shows "\<exists>m c'. marshal resp = Inr (Body m)
    \<and> calls t = calls s1 @ [PublishWithContext n c' (serviceResponseExchangeName b) rk False False m]
    \<and> (\<forall>x rk' h opts cfg. list_all queue_option opts \<and> responseConfig L b x rk' h opts = Inr cfg \<longrightarrow>
        cfgExchangeName cfg = serviceResponseExchangeName b
        \<and> (headersMatch (cfgQueueBindingHeaders cfg) (Headers m) \<longleftrightarrow> x = a))"
proof -
  from responseWrapper_Ok [OF run] user from_a have "PublishServiceResponse L c a rk marshal resp s1 = (Ok (), t)"
    by (auto simp: respond_def)
  from PublishServiceResponse_Ok [OF lib conn(2) this] responses_routed show ?thesis
    unfolding conn(1) by blast
qed

definition answeringIO :: io where
  "answeringIO = demoIO\<lparr>core := demoCore\<lparr>serviceName := ''b'', responseChannel := Some (AmqpChannel 4)\<rparr>\<rparr>"

definition requestEvent :: "string consumableEvent" where
  "requestEvent = \<lparr>evMetadata = demoMetadata, evDeliveryInfo = \<lparr>Destination = ''q'', Source = ''e'', Key = ''k'',
     infoHeaders = [(''service'', GStr ''a'')]\<rparr>, evPayload = ''{}''\<rparr>"

lemma demo_respond:
  "fst (responseWrapper demoLib (\<lambda>_ ev. returnM (evPayload ev)) ''k'' (respond demoLib Inr) Background requestEvent answeringIO) = Ok ()"
  by (simp add: responseWrapper_def respond_def PublishServiceResponse_def requestEvent_def answeringIO_def sendingService_def
      headerService_def publishMessage_run bindM_run wrapM_run returnM_run getM_run tryM_run channel_op_defs invoke_run deferEnd_run
      timeNow_run onMetrics_run spanDo_run Let_def)

theorem response_reaches_requester_witness:
  "\<exists>m c'. calls (snd (responseWrapper demoLib (\<lambda>_ ev. returnM (evPayload ev)) ''k'' (respond demoLib Inr) Background requestEvent answeringIO))
     = [PublishWithContext 4 c' ''b.headers.exchange.response'' ''k'' False False m]"
proof -
  let ?run = "responseWrapper demoLib (\<lambda>_ ev. returnM (evPayload ev)) ''k'' (respond demoLib Inr) Background requestEvent answeringIO"
  from demo_respond have run: "?run = (Ok (), snd ?run)" by (metis prod.collapse)
  have pf: "propagates_fields (propagatorOrGlobal demoLib (connPropagator (core answeringIO))) {''traceparent''}"
    using traceparentPropagator_fields by (simp add: propagatorOrGlobal_def answeringIO_def)
  have user: "(\<lambda>_ ev. returnM (evPayload ev)) Background requestEvent answeringIO = (Ok ''{}'', answeringIO)"
    by (simp add: returnM_run requestEvent_def)
  have a: "sendingService demoLib (evDeliveryInfo requestEvent) = Inr ''a''"
    by (simp add: sendingService_def requestEvent_def headerService_def)
  from response_reaches_requester [where handler = "\<lambda>_ ev. returnM (evPayload ev)", OF demoLib_ce pf _ user a _ _ run, of "''b''" 4]
  show ?thesis by (auto simp: headerService_def answeringIO_def serviceResponseExchangeName_def)
qed



end
