(* ===== verification/End_To_End.thy ===== *)
theory End_To_End
  imports Request_Response
begin

text \<open>
  The path of a message from a publisher of one service to a consumer of another. The broker is
  between them: \<open>delivers\<close> says what a delivery has in common with the message it carries. The
  functions of the specification library that read CloudEvents headers are parameters of the model;
  what the path relies on is the named hypothesis \<open>cloudevents_reader\<close>. The lemmas give the headers of
  a published message as the consumer reads them; the properties built on them are in the
  root theory.
\<close>

definition delivers :: "string \<Rightarrow> string \<Rightarrow> publishing \<Rightarrow> delivery \<Rightarrow> bool" where
  "delivers ex rk m d \<longleftrightarrow> Exchange d = ex \<and> RoutingKey d = rk \<and> same_map (deliveryHeaders d) (Headers m)
     \<and> deliveryBody d = Body m"

text \<open>The prefixes under which a CloudEvents attribute may arrive.\<close>

definition isCE :: "string \<Rightarrow> bool" where
  "isCE k \<longleftrightarrow> HasPrefix k ''ce-'' \<or> HasPrefix k ''cloudEvents:'' \<or> HasPrefix k ''cloudEvents_''"

text \<open>
  What \<open>NormalizeCEHeaders\<close>, \<open>HasCEHeaders\<close> and \<open>MetadataFromHeaders\<close> document: other headers are kept,
  an attribute that arrives under its AMQP name alone is found under its canonical name, a table
  with a canonical attribute has CloudEvents headers, and the metadata are the canonical attributes.
\<close>

definition cloudevents_reader :: "lib \<Rightarrow> bool" where
  "cloudevents_reader L \<longleftrightarrow>
     (\<forall>h k. gomap_ok h \<and> \<not> isCE k \<longrightarrow> map_of (NormalizeCEHeaders L h) k = map_of h k) \<and>
     (\<forall>h a v. gomap_ok h \<and> map_of h (''cloudEvents:'' @ a) = Some v \<and> map_of h (''ce-'' @ a) = None
        \<and> map_of h (''cloudEvents_'' @ a) = None \<longrightarrow> map_of (NormalizeCEHeaders L h) (''ce-'' @ a) = Some v) \<and>
     (\<forall>h a v. map_of h (''ce-'' @ a) = Some v \<longrightarrow> HasCEHeaders L h) \<and>
     (\<forall>h v. map_of h (''ce-'' @ CEAttrID L) = Some (GStr v) \<longrightarrow> ID (MetadataFromHeaders L h) = v) \<and>
     (\<forall>h v. map_of h (''ce-'' @ CEAttrType L) = Some (GStr v) \<longrightarrow> Type (MetadataFromHeaders L h) = v) \<and>
     (\<forall>h v. map_of h (''ce-'' @ CEAttrSource L) = Some (GStr v) \<longrightarrow> MetaSource (MetadataFromHeaders L h) = v) \<and>
     (\<forall>h v. map_of h (''ce-'' @ CEAttrTime L) = Some (GStr v) \<longrightarrow> Timestamp (MetadataFromHeaders L h) = v) \<and>
     (\<forall>h v. map_of h (''ce-'' @ CEAttrSpecVersion L) = Some (GStr v) \<longrightarrow> SpecVersion (MetadataFromHeaders L h) = v)"

lemma cloudevents_readerD:
  assumes "cloudevents_reader L"
  shows "gomap_ok h \<Longrightarrow> \<not> isCE k \<Longrightarrow> map_of (NormalizeCEHeaders L h) k = map_of h k"
    and "gomap_ok h \<Longrightarrow> map_of h (''cloudEvents:'' @ a) = Some v \<Longrightarrow> map_of h (''ce-'' @ a) = None \<Longrightarrow>
      map_of h (''cloudEvents_'' @ a) = None \<Longrightarrow> map_of (NormalizeCEHeaders L h) (''ce-'' @ a) = Some v"
    and "map_of h (''ce-'' @ a) = Some v \<Longrightarrow> HasCEHeaders L h"
    and "map_of h (''ce-'' @ CEAttrID L) = Some (GStr x) \<Longrightarrow> ID (MetadataFromHeaders L h) = x"
    and "map_of h (''ce-'' @ CEAttrType L) = Some (GStr x) \<Longrightarrow> Type (MetadataFromHeaders L h) = x"
    and "map_of h (''ce-'' @ CEAttrSource L) = Some (GStr x) \<Longrightarrow> MetaSource (MetadataFromHeaders L h) = x"
    and "map_of h (''ce-'' @ CEAttrTime L) = Some (GStr x) \<Longrightarrow> Timestamp (MetadataFromHeaders L h) = x"
    and "map_of h (''ce-'' @ CEAttrSpecVersion L) = Some (GStr x) \<Longrightarrow> SpecVersion (MetadataFromHeaders L h) = x"
  using assms unfolding cloudevents_reader_def by blast+


subsection \<open>The headers a caller's table leads to\<close>

text \<open>A table whose only CloudEvents header, if any, is the message ID \<open>ce-id\<close>.\<close>

definition plainTable :: "lib \<Rightarrow> table \<Rightarrow> bool" where
  "plainTable L h \<longleftrightarrow> (\<forall>k. isCE k \<and> k \<noteq> ''ce-'' @ CEAttrID L \<longrightarrow> map_of h k = None)"

definition callerID :: "lib \<Rightarrow> table \<Rightarrow> string \<Rightarrow> string" where
  "callerID L h u = (case map_of h (''ce-'' @ CEAttrID L) of Some (GStr e) \<Rightarrow> if e = [] then u else e | _ \<Rightarrow> u)"

lemma isCE_simps [simp]: "isCE (''ce-'' @ a)" "isCE (''cloudEvents:'' @ a)" "isCE (''cloudEvents_'' @ a)"
  by (simp_all add: isCE_def)

lemma plain_remapped:
  assumes "plainTable L h"
  shows "remapped h (''cloudEvents:'' @ a) = (if a = CEAttrID L then map_of h (''ce-'' @ a) else None)"
    and "remapped h (''cloudEvents_'' @ a) = None" and "remapped h (''ce-'' @ a) = None"
  using assms by (auto simp: remapped_def plainTable_def isCE_def split: option.split)

lemma plain_wireHeader:
  assumes "ce_wire_format L" and "plainTable L h"
  shows "wireHeader L rk src now u h (''cloudEvents:'' @ CEAttrID L) = Some (GStr (callerID L h u))"
    and "wireHeader L rk src now u h (''cloudEvents:'' @ CEAttrType L) = Some (GStr rk)"
    and "wireHeader L rk src now u h (''cloudEvents:'' @ CEAttrSource L) = Some (GStr src)"
    and "wireHeader L rk src now u h (''cloudEvents:'' @ CEAttrTime L) = Some (GStr now)"
    and "wireHeader L rk src now u h (''cloudEvents:'' @ CEAttrSpecVersion L) = Some (GStr (CESpecVersionValue L))"
    and "wireHeader L rk src now u h (''ce-'' @ a) = None" and "wireHeader L rk src now u h (''cloudEvents_'' @ a) = None"
  using assms(1) plain_remapped [OF assms(2), simplified]
  by (auto simp: wireHeader_def wireID_def callerID_def idKey_def wireDefaults_def ce_wire_format_def ce_attrs_def
      split: option.split goval.split)

lemma gomap_ok_fold_headers: "gomap_ok t \<Longrightarrow> gomap_ok (fold (\<lambda>h t. AList.update (headerKey h) (headerValue h) t) hs t)"
  by (induction hs arbitrary: t) auto

lemma gomap_ok_publishTable [simp]: "gomap_ok (publishTable pub hs)"
  unfolding publishTable_def defaultTable_def by (intro gomap_ok_fold_headers) (simp add: gomap_ok_def)

lemma publishTable_absent:
  assumes "list_all (\<lambda>h. headerKey h \<noteq> k) (defaultHeaders pub)" and "list_all (\<lambda>h. headerKey h \<noteq> k) hs"
  shows "map_of (publishTable pub hs) k = None"
  using assms by (simp add: publishTable_def defaultTable_def fold_headers_other list_all_iff)

lemma plain_publishTable:
  assumes "list_all (\<lambda>h. \<not> isCE (headerKey h)) (defaultHeaders pub)"
    and "list_all (\<lambda>h. isCE (headerKey h) \<longrightarrow> headerKey h = ''ce-'' @ CEAttrID L) hs"
  shows "plainTable L (publishTable pub hs)"
  unfolding plainTable_def using assms by (auto intro!: publishTable_absent simp: list_all_iff)


subsection \<open>The headers on the consumer's side\<close>

lemma delivered_map:
  assumes "delivers ex rk' (wireMessage L s c prop rk src body h) d" and "gomap_ok h"
  shows "map_of (deliveryHeaders d) = map_of (Headers (wireMessage L s c prop rk src body h))"
    and "gomap_ok (deliveryHeaders d)"
  using assms by (auto simp: delivers_def same_map_def)

lemma delivered_header:
  assumes "ce_wire_format L" "propagates_fields (propagatorOrGlobal L prop) F"
    and "delivers ex rk' (wireMessage L s c prop rk src body h) d" "gomap_ok h" "k \<notin> F"
  shows "map_of (deliveryHeaders d) k =
    wireHeader L rk src (RFC3339 L (clock L (ticks s))) (newUUID L (uuids s)) h k"
  using delivered_map(1) [OF assms(3,4)] inject_other [OF assms(2,5)]
  by (simp add: wireMessage_def wireTable_wireHeader [OF assms(1)])

text \<open>An attribute the publisher sets is found under its canonical name.\<close>

lemma delivered_attribute:
  assumes lib: "ce_wire_format L" "propagates_fields (propagatorOrGlobal L prop) F" "\<forall>k \<in> F. \<not> isCE k"
      "cloudevents_reader L"
    and d: "delivers ex rk' (wireMessage L s c prop rk src body h) d" "gomap_ok h" "plainTable L h"
    and v: "wireHeader L rk src (RFC3339 L (clock L (ticks s))) (newUUID L (uuids s)) h (''cloudEvents:'' @ a) = Some v"
  shows "map_of (NormalizeCEHeaders L (deliveryHeaders d)) (''ce-'' @ a) = Some v"
proof -
  note head = delivered_header [OF lib(1,2) d(1,2)]
  have "''cloudEvents:'' @ a \<notin> F" "''ce-'' @ a \<notin> F" "''cloudEvents_'' @ a \<notin> F"
    using lib(3) isCE_simps by blast+
  with head v plain_wireHeader(6,7) [OF lib(1) d(3)]
  show ?thesis by (intro cloudevents_readerD(2) [OF lib(4) delivered_map(2) [OF d(1,2)]]) simp_all
qed

lemma delivered_metadata:
  fixes qc :: queueConsumer and n :: nat
  assumes lib: "ce_wire_format L" "propagates_fields (propagatorOrGlobal L prop) F" "\<forall>k \<in> F. \<not> isCE k"
      "cloudevents_reader L"
    and d: "delivers ex rk' (wireMessage L s c prop rk src body h) d" "gomap_ok h" "plainTable L h"
  defines "m \<equiv> fst (deliveredMetadata L qc d n)"
  shows "ID m = callerID L h (newUUID L (uuids s))" and "Type m = rk" and "MetaSource m = src"
    and "Timestamp m = RFC3339 L (clock L (ticks s))" and "SpecVersion m = CESpecVersionValue L"
    and "snd (deliveredMetadata L qc d n) = n"
proof -
  note attr = delivered_attribute [OF lib d] and wire = plain_wireHeader [OF lib(1) d(3)]
  have "HasCEHeaders L (NormalizeCEHeaders L (deliveryHeaders d))"
    by (rule cloudevents_readerD(3) [OF lib(4) attr [OF wire(2)]])
  then have m: "deliveredMetadata L qc d n = (MetadataFromHeaders L (NormalizeCEHeaders L (deliveryHeaders d)), n)"
    by (simp add: deliveredMetadata_def enriches_def Let_def)
  show "ID m = callerID L h (newUUID L (uuids s))" "Type m = rk" "MetaSource m = src"
    "Timestamp m = RFC3339 L (clock L (ticks s))" "SpecVersion m = CESpecVersionValue L"
    "snd (deliveredMetadata L qc d n) = n"
    unfolding m_def m fst_conv snd_conv
    using cloudevents_readerD(4-8) [OF lib(4)] attr [OF wire(1)] attr [OF wire(2)] attr [OF wire(3)] attr [OF wire(4)]
      attr [OF wire(5)] by simp_all
qed


subsection \<open>The trace context on the consumer's side\<close>

lemma wireTable_no_field:
  assumes "ce_wire_format L" and "\<not> isCE k" and "map_of h k = None"
  shows "map_of (wireTable L rk src now u h) k = None"
proof -
  have "k \<noteq> ''cloudEvents:'' @ a" for a using assms(2) isCE_simps(2) by metis
  moreover have "remapped h k = None"
    using assms(2,3) by (auto simp: remapped_def isCE_def HasPrefix_iff)
  ultimately show ?thesis
    using assms(1)
    by (simp add: wireTable_wireHeader [OF assms(1)] wireHeader_def idKey_def wireDefaults_def ce_wire_format_def del: append_Cons)
qed

lemma delivered_context:
  assumes lib: "ce_wire_format L" "propagates_fields (propagatorOrGlobal L prop) F" "\<forall>k \<in> F. \<not> isCE k"
    and d: "delivers ex rk' (wireMessage L s c prop rk src body h) d" "gomap_ok h" "\<forall>k \<in> F. map_of h k = None"
    and prop': "propagatorOrGlobal L prop' = propagatorOrGlobal L prop"
  shows "extractToContext L c' (deliveryHeaders d) prop' =
    Extract (propagatorOrGlobal L prop) c' (Inject (propagatorOrGlobal L prop) (SpanCtx c (nextSpan s)))"
proof -
  let ?h = "wireTable L rk src (RFC3339 L (clock L (ticks s))) (newUUID L (uuids s)) h"
  have "map_of (stringHeaders (deliveryHeaders d) []) k =
      map_of (Inject (propagatorOrGlobal L prop) (SpanCtx c (nextSpan s))) k" if "k \<in> F" for k
  proof -
    have "map_of (stringHeaders (deliveryHeaders d) []) k =
        map_of (stringHeaders (injectToHeaders L (SpanCtx c (nextSpan s)) ?h prop) []) k"
      using delivered_map [OF d(1,2)] d(2) by (simp add: map_of_stringHeaders wireMessage_def)
    also have "\<dots> = map_of (Inject (propagatorOrGlobal L prop) (SpanCtx c (nextSpan s))) k"
      using lib(3) d(2,3) that by (intro inject_field [OF lib(2)]) (simp_all add: wireTable_no_field [OF lib(1)])
    finally show ?thesis .
  qed
  with lib(2) show ?thesis by (simp add: extractToContext_def prop' propagates_fields_def)
qed

lemma Publish_Ok_message:
  assumes run: "Publish L c p rk marshal msg hs s = (Ok (), t)" and ch: "channel (pubs s p) = Some (AmqpChannel n)"
    and m: "calls t = calls s @ [PublishWithContext n' c' ex rk' man imm m]"
  shows "validateKeys hs = None" and "n' = n" and "ex = exchange (pubs s p)" and "rk' = rk" and "marshal msg = Inr (Body m)"
    and "m = wireMessage L s c (pubPropagator (pubs s p)) rk (pubServiceName (pubs s p)) (Body m) (publishTable (pubs s p) hs)"
proof -
  show valid: "validateKeys hs = None"
    using run by (cases "validateKeys hs") (auto simp: Publish_invalid_header)
  from Publish_calls [OF valid refl ch run] m
  show "n' = n" "ex = exchange (pubs s p)" "rk' = rk" "marshal msg = Inr (Body m)"
    "m = wireMessage L s c (pubPropagator (pubs s p)) rk (pubServiceName (pubs s p)) (Body m) (publishTable (pubs s p) hs)"
    by (auto simp: publishCall_def wireMessage_def)
qed


text \<open>The consumer reads the publishing service from the header \<open>service\<close>.\<close>

lemma delivered_service:
  assumes lib: "ce_wire_format L" "propagates_fields (propagatorOrGlobal L (pubPropagator (pubs s p))) F" "headerService \<notin> F"
      "cloudevents_reader L"
    and request: "Publish L c p rk marshal msg hs s = (Ok (), t)" "wired (pubs s p)" "channel (pubs s p) = Some (AmqpChannel n)"
    and m: "calls t = calls s @ [PublishWithContext n' c' ex rk' man imm m]" "delivers ex rk' m d"
  shows "sendingService L (deliveredInfo L qc d) = Inr (pubServiceName (pubs s p))"
proof -
  note msg = Publish_Ok_message [OF request(1,3) m(1)]
  have "map_of (Headers m) headerService = Some (GStr (pubServiceName (pubs s p)))"
    by (subst msg(6)) (rule wireMessage_service [OF lib(1-3) publishTable_service [OF request(2) msg(1)]])
  moreover have "gomap_ok (deliveryHeaders d)" "map_of (deliveryHeaders d) = map_of (Headers m)"
    using m(2) by (auto simp: delivers_def same_map_def)
  ultimately show ?thesis
    using cloudevents_readerD(1) [OF lib(4), of "deliveryHeaders d" headerService]
    by (simp add: sendingService_def deliveredInfo_def isCE_def headerService_def)
qed


subsection \<open>An acknowledged delivery\<close>

text \<open>A delivery is acknowledged only after its handler returned nil for the delivered event.\<close>

lemma acked_handler:
  assumes name: "qcSpanNameFn qc = Some nameFn" and get: "rkh_get L (handlers qc) (RoutingKey d) = Some (newWrappedHandler T h)"
    and run: "loopBody L qc d ls = (x, t)" "settled t = settled ls @ [Acked (Tag d) False]"
  obtains c ev s1 s2 where "h c ev s1 = (Ok (), s2)" "evDeliveryInfo ev = deliveredInfo L qc d" "core s1 = core (lio ls)"
    "calls s1 = calls (lio ls)" "calls (lio t) = calls s2"
proof -
  define ls' where "ls' = ls\<lparr>lio := received qc d (lio ls)\<rparr>"
  let ?s = "handlerReady L qc nameFn d (lio ls')"
  obtain r s2 where h: "newWrappedHandler T h (deliveredCtx L qc d (lio ls')) (deliveredEvent L qc d (lio ls')) ?s = (r, s2)"
    by fastforce
  have "handleDelivery L qc (newWrappedHandler T h) d (getDeliveryInfo (queue qc) d) ls' = (x, t)"
    using run(1) get by (simp add: loopBody_handled ls'_def)
  from handleDelivery_outcome(2,5) [where h = "newWrappedHandler T h", OF name h this]
  have out: "settled t = settled ls @ verdict (Tag d) r" "calls (lio t) = calls s2" by (simp_all add: ls'_def)
  from out(1) run(2) have "r = Ok ()" by (cases r) (auto simp: errVerdict_def split: if_splits)
  with h out(2) that show thesis
    by (auto simp: newWrappedHandler_def deliveredEvent_def failM_run panicM_run handlerReady_def received_def ls'_def
        split: if_splits option.splits sum.splits)
qed


subsection \<open>A reader\<close>

lemma map_of_canonical_other:
  assumes "\<not> isCE k"
  shows "map_of (map (\<lambda>(k, v). (canonicalCEKey k, v)) h) k = map_of h k"
  using assms by (induction h) (auto simp: canonicalCEKey_def isCE_def HasPrefix_iff TrimPrefix_def)

lemma map_of_canonical_attribute:
  assumes "map_of h (''cloudEvents:'' @ a) = Some v" "map_of h (''ce-'' @ a) = None" "map_of h (''cloudEvents_'' @ a) = None"
  shows "map_of (map (\<lambda>(k, v). (canonicalCEKey k, v)) h) (''ce-'' @ a) = Some v"
  using assms
  by (induction h) (auto simp: canonicalCEKey_def HasPrefix_iff TrimPrefix_def split: if_splits)

lemma demoLib_reader: "cloudevents_reader demoLib"
proof -
  have has: "list_ex (\<lambda>(k, v). HasPrefix k ''ce-'') h" if "map_of h (''ce-'' @ a) = Some (v::goval)" for h a v
    using map_of_SomeD [OF that] by (force simp: list_ex_iff HasPrefix_iff)
  have str: "stringAt h k = v" if "map_of h k = Some (GStr v)" for h k v
    using that by (simp add: stringAt_def)
  show ?thesis unfolding cloudevents_reader_def demoLib_simps
  proof (intro conjI)
    show "\<forall>h k. gomap_ok h \<and> \<not> isCE k \<longrightarrow> map_of (map (\<lambda>(k, v :: goval). (canonicalCEKey k, v)) h) k = map_of h k"
      by (intro allI impI, elim conjE) (rule map_of_canonical_other)
  next
    show "\<forall>h a v. gomap_ok h \<and> map_of h (''cloudEvents:'' @ a) = Some v \<and> map_of h (''ce-'' @ a) = None
        \<and> map_of h (''cloudEvents_'' @ a) = None \<longrightarrow> map_of (map (\<lambda>(k, v :: goval). (canonicalCEKey k, v)) h) (''ce-'' @ a) = Some v"
      by (intro allI impI, elim conjE) (rule map_of_canonical_attribute)
  next
    show "\<forall>h a v. map_of h (''ce-'' @ a) = Some v \<longrightarrow> list_ex (\<lambda>(k, v :: goval). HasPrefix k ''ce-'') h"
      by (intro allI impI) (rule has)
  qed (simp_all add: str)
qed

definition deliveryOf :: "string \<Rightarrow> string \<Rightarrow> publishing \<Rightarrow> delivery" where
  "deliveryOf ex rk m = \<lparr>Tag = 1, Exchange = ex, RoutingKey = rk, deliveryHeaders = Headers m, deliveryBody = Body m\<rparr>"

lemma demoPublish_Ok:
  assumes "validateKeys hs = None"
  obtains t m where "Publish demoLib Background 0 rk Inr body hs demoIO = (Ok (), t)"
    "calls t = [PublishWithContext 0 (SpanCtx Background 0) ''events.topic.exchange'' rk False False m]"
    "delivers ''events.topic.exchange'' rk m (deliveryOf ''events.topic.exchange'' rk m)"
proof -
  let ?run = "Publish demoLib Background 0 rk Inr body hs demoIO"
  have ok: "fst ?run = Ok ()"
    using assms by (simp add: Publish_valid_header [OF _ refl] publishMessage_run run_simps channel_op_defs Let_def
        waitConfirm_def selectConfirm_def)
  then have run: "?run = (Ok (), snd ?run)" by (metis prod.collapse)
  from Publish_calls [OF assms refl _ run, of 0] show thesis
    by (intro that [OF run]) (auto simp: publishCall_def deliveryOf_def delivers_def same_map_def wireMessage_def)
qed

lemma demoFields: "propagates_fields (propagatorOrGlobal demoLib None) {''traceparent''}"
  using traceparentPropagator_fields by (simp add: propagatorOrGlobal_def)


subsection \<open>An answering service\<close>

definition echo :: "ctx \<Rightarrow> string consumableEvent \<Rightarrow> (io, string) M" where
  "echo c ev = returnM (evPayload ev)"

definition echoConsumer :: queueConsumer where
  "echoConsumer = (newQueueConsumer ''q'' (Some (\<lambda>_. ''span'')))\<lparr>handlers :=
     [(''k'', newWrappedHandler rawMessageType (responseWrapper demoLib echo ''k'' (respond demoLib Inr)))]\<rparr>"

lemma echo_simps [simp]:
  "qcSpanNameFn echoConsumer = Some (\<lambda>_. ''span'')"
  "rkh_get demoLib (handlers echoConsumer) ''k'' =
     Some (newWrappedHandler rawMessageType (responseWrapper demoLib echo ''k'' (respond demoLib Inr)))"
  "serviceName (core answeringIO) = ''b''" "responseChannel (core answeringIO) = Some (AmqpChannel 4)"
  "connPropagator (core answeringIO) = None" "core (snd (echo c ev s)) = core s"
  by (simp_all add: echoConsumer_def newQueueConsumer_def answeringIO_def echo_def returnM_run)

lemma echo_answers:
  assumes "core s = core answeringIO" and "sendingService demoLib (evDeliveryInfo ev) = Inr a"
  shows "fst (responseWrapper demoLib echo ''k'' (respond demoLib Inr) c ev s) = Ok ()"
  using assms
  by (simp add: responseWrapper_def respond_def PublishServiceResponse_def echo_def answeringIO_def
      publishMessage_run bindM_run wrapM_run returnM_run getM_run tryM_run channel_op_defs invoke_run deferEnd_run
      timeNow_run onMetrics_run spanDo_run Let_def)

lemma echo_acks:
  assumes "RoutingKey d = ''k''" and "sendingService demoLib (deliveredInfo demoLib echoConsumer d) = Inr a"
  shows "settled (snd (loopBody demoLib echoConsumer d \<lparr>lio = answeringIO, settled = []\<rparr>)) = [Acked (Tag d) False]"
proof -
  let ?H = "newWrappedHandler rawMessageType (responseWrapper demoLib echo ''k'' (respond demoLib Inr))"
  let ?s = "\<lparr>lio = received echoConsumer d answeringIO, settled = []\<rparr>"
  have get: "rkh_get demoLib (handlers echoConsumer) (RoutingKey d) = Some ?H" using assms(1) by simp
  obtain r s2 where h: "?H (deliveredCtx demoLib echoConsumer d (lio ?s)) (deliveredEvent demoLib echoConsumer d (lio ?s))
      (handlerReady demoLib echoConsumer (\<lambda>_. ''span'') d (lio ?s)) = (r, s2)" by fastforce
  have "fst (?H (deliveredCtx demoLib echoConsumer d (lio ?s)) (deliveredEvent demoLib echoConsumer d (lio ?s))
      (handlerReady demoLib echoConsumer (\<lambda>_. ''span'') d (lio ?s))) = Ok ()"
    using assms(2)
    by (simp add: newWrappedHandler_def rawMessageType_def deliveredEvent_def handlerReady_def received_def echo_answers)
  with h have "r = Ok ()" by simp
  with handleDelivery_outcome(2) [where h = ?H, OF echo_simps(1) h surjective_pairing] show ?thesis
    by (simp add: loopBody_handled [OF get])
qed

end
