(* ===== verification/Lifecycle.thy ===== *)
theory Lifecycle
  imports Setup_Functions
begin

text \<open>
  What setup functions may do to a connection, and the life of a connection. \<open>setup_effect\<close>
  bounds the effect of one setup function: it does not touch the connection's own channels, it
  gives publishers only channels it opened itself, it opens channels with the settings the
  connection was dialled with, and it keeps the registry of handlers well-formed: unambiguous, and every consumer with a span-name function. Every setup function
  of the library keeps within it, so \<open>Start\<close> and the theorems below hold for any list of them.
\<close>

text \<open>No two publishers share a channel of the library, and all their channels have been opened.\<close>

definition pubs_ok :: "io \<Rightarrow> bool" where
  "pubs_ok s \<longleftrightarrow>
     (\<forall>p n. channel (pubs s p) = Some (AmqpChannel n) \<longrightarrow> n < nextChan s) \<and>
     (\<forall>p p' n. channel (pubs s p) = Some (AmqpChannel n) \<and> channel (pubs s p') = Some (AmqpChannel n) \<longrightarrow> p = p')"

definition ownCore :: "connCore \<Rightarrow> bool \<times> string \<times> string \<times> amqpConnection option \<times> amqpChannel option
    \<times> amqpChannel option \<times> amqpChannel list" where
  "ownCore c = (started c, serviceName c, amqpUri c, connection c, setupChannel c, responseChannel c, consumerChannels c)"

text \<open>The calls a setup function makes, by the connection and the setup channel it works on.\<close>

fun setupCall :: "amqpConnection option \<Rightarrow> amqpCall \<Rightarrow> bool" where
  "setupCall cn (Qos n a b g) = dialled cn a"
| "setupCall cn (Dial u c) = False"
| "setupCall cn (PublishWithContext n c ex rk b1 b2 m) = False"
| "setupCall cn CloseConnection = False"
| "setupCall cn (CloseChannel n) = False"
| "setupCall cn (Consume n q cs b1 b2 b3 b4 t) = False"
| "setupCall cn NotifyConnectionClose = False"
| "setupCall cn c = True"

definition pub_effect :: "io \<Rightarrow> io \<Rightarrow> bool" where
  "pub_effect s t \<longleftrightarrow> nextChan s \<le> nextChan t \<and> (pubs_ok s \<longrightarrow> pubs_ok t) \<and>
     (\<forall>p n. channel (pubs t p) = Some (AmqpChannel n) \<longrightarrow>
        channel (pubs s p) = Some (AmqpChannel n) \<or> nextChan s \<le> n)"

definition call_effect :: "amqpConnection option \<Rightarrow> amqpChannel option \<Rightarrow> io \<Rightarrow> io \<Rightarrow> bool" where
  "call_effect cn ch s t \<longleftrightarrow> (\<exists>cs. calls t = calls s @ cs \<and> list_all (setupCall cn) cs
     \<and> (cn = Some NoopConnection \<and> ch = Some NoopChannel \<longrightarrow> cs = []))"

definition fwd_effect :: "amqpConnection option \<Rightarrow> io \<Rightarrow> io \<Rightarrow> bool" where
  "fwd_effect cn s t \<longleftrightarrow> (\<exists>fs. forwarders t = forwarders s @ fs
     \<and> list_all (fwdOf cn) fs)"

definition io_effect :: "amqpConnection option \<Rightarrow> amqpChannel option \<Rightarrow> io \<Rightarrow> io \<Rightarrow> bool" where
  "io_effect cn ch s t \<longleftrightarrow> pub_effect s t \<and> call_effect cn ch s t \<and> fwd_effect cn s t"

definition registry_ok :: "lib \<Rightarrow> queueConsumers option \<Rightarrow> bool" where
  "registry_ok L r \<longleftrightarrow> (\<exists>qcs. r = Some qcs \<and> qcs_ok L qcs \<and> named qcs)"

definition setup_effect :: "lib \<Rightarrow> world \<Rightarrow> world \<Rightarrow> bool" where
  "setup_effect L w w' \<longleftrightarrow>
     ownCore (conn w') = ownCore (conn w) \<and> loops w' = loops w
     \<and> io_effect (connection (conn w)) (setupChannel (conn w)) (wio w) (wio w')
     \<and> (overlap_sound L \<and> registry_ok L (registry w) \<longrightarrow> registry_ok L (registry w'))"

lemma io_effect_refl: "io_effect cn ch s s"
  by (auto simp: io_effect_def pub_effect_def call_effect_def fwd_effect_def)

lemma pub_effect_trans: "pub_effect s t \<Longrightarrow> pub_effect t u \<Longrightarrow> pub_effect s u"
  unfolding pub_effect_def by (meson order_trans)

lemma call_effect_trans:
  assumes "call_effect cn ch s t" and "call_effect cn ch t u"
  shows "call_effect cn ch s u"
proof -
  from assms(1) obtain cs where cs: "calls t = calls s @ cs" "list_all (setupCall cn) cs"
    "cn = Some NoopConnection \<and> ch = Some NoopChannel \<longrightarrow> cs = []" unfolding call_effect_def by blast
  from assms(2) obtain cs' where cs': "calls u = calls t @ cs'" "list_all (setupCall cn) cs'"
    "cn = Some NoopConnection \<and> ch = Some NoopChannel \<longrightarrow> cs' = []" unfolding call_effect_def by blast
  show ?thesis unfolding call_effect_def
    by (rule exI [of _ "cs @ cs'"]) (use cs cs' in simp)
qed

lemma fwd_effect_trans:
  assumes "fwd_effect cn s t" and "fwd_effect cn t u"
  shows "fwd_effect cn s u"
proof -
  from assms(1) obtain fs where fs: "forwarders t = forwarders s @ fs" "list_all (fwdOf cn) fs" unfolding fwd_effect_def by blast
  from assms(2) obtain fs' where fs': "forwarders u = forwarders t @ fs'" "list_all (fwdOf cn) fs'" unfolding fwd_effect_def by blast
  have "list_all (fwdOf cn) (fs @ fs')" using fs(2) fs'(2) by (simp only: list_all_append)
  with fs(1) fs'(1) show ?thesis unfolding fwd_effect_def by auto
qed

lemma io_effect_trans: "io_effect cn ch s t \<Longrightarrow> io_effect cn ch t u \<Longrightarrow> io_effect cn ch s u"
  unfolding io_effect_def using pub_effect_trans call_effect_trans fwd_effect_trans by blast

lemma ownCore_connection:
  "ownCore c = ownCore c' \<Longrightarrow> connection c = connection c' \<and> setupChannel c = setupChannel c' \<and>
    serviceName c = serviceName c' \<and> responseChannel c = responseChannel c' \<and> consumerChannels c = consumerChannels c'
    \<and> started c = started c'"
  by (simp add: ownCore_def)

interpretation setup_effect: effect_rel "setup_effect L" for L :: lib
proof (unfold_locales, goal_cases)
  case (1 s)
  then show ?case by (simp add: setup_effect_def io_effect_refl)
next
  case (2 s t u)
  then have own: "ownCore (conn t) = ownCore (conn s)" by (simp add: setup_effect_def)
  from 2 ownCore_connection [OF own] show ?case
    unfolding setup_effect_def using io_effect_trans by metis
qed


subsection \<open>The steps of setup functions\<close>

lemma keeps_liftW:
  assumes "\<And>s. io_effect (connection (core s)) (setupChannel (core s)) s (snd (m s)) \<and> core (snd (m s)) = core s"
  shows "keeps (setup_effect L) (liftW m)"
proof (rule keepsI)
  fix w :: world
  show "setup_effect L w (snd (liftW m w))"
    using assms [of "wio w"] by (auto simp: setup_effect_def liftW_def split: prod.split)
qed

lemma io_effect_calls:
  assumes "t = s\<lparr>calls := calls s @ cs\<rparr>" and "list_all (setupCall cn) cs"
    and "cn = Some NoopConnection \<and> ch = Some NoopChannel \<longrightarrow> cs = []"
  shows "io_effect cn ch s t"
proof -
  have "pub_effect s t" "fwd_effect cn s t"
    using assms(1) by (simp_all add: pub_effect_def fwd_effect_def pubs_ok_def)
  with assms show ?thesis unfolding io_effect_def call_effect_def by auto
qed

lemma onChannel_effect:
  assumes "\<And>n. setupCall cn (call n)"
  shows "io_effect cn ch s (snd (onChannel ch (\<lambda>n. invoke L (call n)) s))"
proof (cases ch)
  case (Some a)
  show ?thesis
  proof (cases a)
    case (AmqpChannel n)
    with Some assms show ?thesis
      by (intro io_effect_calls [where cs = "[call n]"]) (auto simp: run_simps split: option.split)
  qed (use Some in \<open>simp add: run_simps io_effect_refl\<close>)
qed (simp add: run_simps io_effect_refl)

lemma invoke_core [simp]: "core (snd (onChannel ch (\<lambda>n. invoke L (call n)) s)) = core s"
  by (auto simp: onChannel_def run_simps split: option.split amqpChannel.split)

lemma openEffect_io:
  assumes "openEffect cn s t"
  shows "io_effect cn ch s t"
proof -
  from assms obtain cs fs k where t: "t = s\<lparr>calls := calls s @ cs, nextChan := nextChan s + k, forwarders := forwarders s @ fs\<rparr>"
    "list_all (openCall cn) cs" "list_all (fwdOf cn) fs"
    "cn = Some NoopConnection \<longrightarrow> cs = []"
    unfolding openEffect_def by blast
  have "openCall cn c \<Longrightarrow> setupCall cn c" for c by (cases c) simp_all
  then have "list_all (setupCall cn) cs"
    using t(2) by (simp add: list_all_iff)
  then have "call_effect cn ch s t" using t(1,4) by (auto simp: call_effect_def)
  moreover have "fwd_effect cn s t" using t(1,3) by (simp add: fwd_effect_def)
  moreover have "pub_effect s t" using t(1) by (auto simp: pub_effect_def pubs_ok_def intro: trans_less_add1)
  ultimately show ?thesis by (simp add: io_effect_def)
qed

lemma keeps_onCore:
  "(\<And>c. ownCore (f c) = ownCore c) \<Longrightarrow> keeps (setup_effect L) (onCore f)"
  by (rule keepsI)
    (simp add: onCore_run setup_effect_def io_effect_def pub_effect_def call_effect_def fwd_effect_def pubs_ok_def)

lemma keeps_addEndpoint [keeps_rules]: "keeps (setup_effect L) (addEndpoint ep)"
  unfolding addEndpoint_def by (rule keeps_onCore) (simp add: ownCore_def)

lemma keeps_registerHandler [keeps_rules]: "keeps (setup_effect L) (registerHandler L q rk h)"
proof (rule keepsI)
  fix w :: world
  show "setup_effect L w (snd (registerHandler L q rk h w))"
  proof (cases "registry w")
    case None
    then show ?thesis by (simp add: registerHandler_def setup_effect_def io_effect_refl)
  next
    case (Some qcs)
    obtain err qcs' where add: "queueConsumers_add L qcs q rk h = (err, qcs')" by fastforce
    have "qcs_ok L qcs'" if "overlap_sound L" "qcs_ok L qcs"
      using that add queueConsumers_add_ok [of L qcs q rk h qcs'] queueConsumers_add_refused [of L qcs q rk h _ qcs']
      by (cases err) auto
    with Some add show ?thesis
      by (auto simp: registerHandler_def setup_effect_def io_effect_refl registry_ok_def dest: named_add)
  qed
qed


text \<open>The same relation in runs that begin with the core \<open>c\<close> read by the setup function.\<close>

definition setup_at :: "lib \<Rightarrow> connCore \<Rightarrow> world \<Rightarrow> world \<Rightarrow> bool" where
  "setup_at L c w w' \<longleftrightarrow> (ownCore (conn w) = ownCore c \<longrightarrow> setup_effect L w w')"

interpretation setup_at: effect_rel "setup_at L c" for L :: lib and c :: connCore
proof (unfold_locales, goal_cases)
  case (2 s t u)
  then show ?case unfolding setup_at_def using setup_effect.trans by (metis setup_effect_def)
qed (simp add: setup_at_def setup_effect.refl)

lemma setup_atI: "keeps (setup_effect L) m \<Longrightarrow> keeps (setup_at L c) m"
  by (simp add: keeps_def setup_at_def)

lemma keeps_getConn:
  assumes "\<And>c. keeps (setup_at L c) (f c)"
  shows "keeps (setup_effect L) (bindM (getM conn) f)"
proof (rule keepsI)
  fix w :: world
  show "setup_effect L w (snd (bindM (getM conn) f w))"
    using assms [of "conn w"] by (simp add: keeps_def setup_at_def bindM_run getM_run)
qed

lemma keeps_at_liftW:
  assumes "\<And>s. io_effect (connection c) (setupChannel c) s (snd (m s))" and "\<And>s. core (snd (m s)) = core s"
  shows "keeps (setup_at L c) (liftW m)"
proof (rule keepsI)
  fix w :: world
  show "setup_at L c w (snd (liftW m w))"
    using assms [of "wio w"] ownCore_connection [of "conn w" c]
    by (auto simp: setup_at_def setup_effect_def liftW_def split: prod.split)
qed

lemma keeps_at_declare [keeps_rules]:
  "keeps (setup_at L c) (liftW (exchangeDeclare L' (setupChannel c) e k))"
  "keeps (setup_at L c) (liftW (queueDeclare L' (setupChannel c) cfg))"
  "keeps (setup_at L c) (liftW (chQueueBind L' (setupChannel c) q rk e b args))"
  by (rule keeps_at_liftW; simp add: exchangeDeclare_def queueDeclare_def channel_op_defs onChannel_effect)+

lemma keeps_at_uuid [keeps_rules]: "keeps (setup_at L c) (liftW (uuidNew L'))"
  by (rule keeps_at_liftW)
    (simp_all add: uuidNew_run io_effect_def pub_effect_def call_effect_def fwd_effect_def pubs_ok_def)

lemma messageHandlerBind_split:
  "messageHandlerBindQueueToExchange L cfg =
     thenM (registerHandler L (cfgQueueName cfg) (cfgRoutingKey cfg) (cfgHandler cfg))
     (bindM (getM conn) (\<lambda>c.
      thenM (liftW (exchangeDeclare L (setupChannel c) (cfgExchangeName cfg) (cfgKind cfg)))
      (thenM (liftW (queueDeclare L (setupChannel c) cfg))
      (thenM useLogger
      (liftW (chQueueBind L (setupChannel c) (cfgQueueName cfg) (cfgRoutingKey cfg) (cfgExchangeName cfg) False
        (cfgQueueBindingHeaders cfg)))))))"
  by (simp add: messageHandlerBindQueueToExchange_def bindM_def getM_def fun_eq_iff split: prod.split res.split)

lemma keeps_messageHandlerBind [keeps_rules]:
  "keeps (setup_effect L) (messageHandlerBindQueueToExchange L cfg)"
  unfolding messageHandlerBind_split
  by (intro setup_effect.keeps_bind keeps_registerHandler keeps_getConn setup_at.keeps_bind keeps_at_declare
      keeps_useLogger setup_at.refl)

lemma keeps_bindConsumer: "keeps (setup_effect L) (bindConsumer L config ep)"
  unfolding bindConsumer_def
  by (intro setup_effect.keeps_case_sum setup_effect.keeps_bind setup_effect.keeps_fail keeps_messageHandlerBind keeps_addEndpoint)

lemma Publisher_setup_effect:
  assumes "Publisher_setup L p (Some ch) svc exch tr prop nameFn headers s = (r, t)"
  shows "core t = core s" "nextChan t = nextChan s" "forwarders t = forwarders s"
    "\<exists>cs. calls t = calls s @ cs \<and> list_all (setupCall cn) cs \<and> (ch = NoopChannel \<longrightarrow> cs = [])"
    "\<exists>pub. pubs t = (pubs s)(p := pub) \<and> (channel pub = Some ch \<or> channel pub = channel (pubs s p))"
proof -
  have "core t = core s \<and> nextChan t = nextChan s \<and> forwarders t = forwarders s
    \<and> (\<exists>cs. calls t = calls s @ cs \<and> list_all (setupCall cn) cs \<and> (ch = NoopChannel \<longrightarrow> cs = []))
    \<and> (\<exists>pub. pubs t = (pubs s)(p := pub) \<and> (channel pub = Some ch \<or> channel pub = channel (pubs s p)))"
  proof (cases "validateKeys headers")
    case (Some e)
    with assms have "t = s" by (simp add: Publisher_setup_def failM_run)
    then show ?thesis by (auto intro!: exI [of _ "pubs s p"])
  next
    case None
    with assms show ?thesis
      by (cases ch; cases "noConfirm (pubs s p)"; cases "confirmCh (pubs s p)")
        (auto simp: Publisher_setup_def updPub_def makeConfirmCh_def run_simps channel_op_defs split: option.splits)
  qed
  then show "core t = core s" "nextChan t = nextChan s" "forwarders t = forwarders s"
    "\<exists>cs. calls t = calls s @ cs \<and> list_all (setupCall cn) cs \<and> (ch = NoopChannel \<longrightarrow> cs = [])"
    "\<exists>pub. pubs t = (pubs s)(p := pub) \<and> (channel pub = Some ch \<or> channel pub = channel (pubs s p))"
    by blast+
qed

lemma pub_effect_assign:
  assumes "nextChan s \<le> nextChan t" and "pubs t = (pubs s)(p := pub)"
    and "\<And>n. channel pub = Some (AmqpChannel n) \<Longrightarrow>
      channel (pubs s p) = Some (AmqpChannel n) \<or> (nextChan s \<le> n \<and> n < nextChan t)"
  shows "pub_effect s t"
proof -
  have new: "channel (pubs s p') = Some (AmqpChannel n) \<or> (p' = p \<and> nextChan s \<le> n \<and> n < nextChan t)"
    if "channel (pubs t p') = Some (AmqpChannel n)" for p' n
    using that assms(2,3) by (auto split: if_splits)
  have "pubs_ok t" if ok: "pubs_ok s"
    unfolding pubs_ok_def
  proof (intro conjI allI impI, goal_cases)
    case (1 p' n)
    with new [OF this] ok assms(1) show ?case by (fastforce simp: pubs_ok_def)
  next
    case (2 p' p'' n)
    then show ?case using new [of p' n] new [of p'' n] ok unfolding pubs_ok_def by (metis leD)
  qed
  with assms(1) new show ?thesis unfolding pub_effect_def by blast
qed


lemma connChannel_noop: "connChannel L (Some NoopConnection) s = (Ok NoopChannel, s)"
  by (simp add: connChannel_def noopConnection_channel_def returnM_run)

lemma connChannel_at [keeps_rules]: "keeps (setup_at L c) (liftW (connChannel L' (connection c)))"
proof (rule keeps_at_liftW)
  fix s :: io
  have run: "connChannel L' (connection c) s = (fst (connChannel L' (connection c) s), snd (connChannel L' (connection c) s))"
    by simp
  show "io_effect (connection c) (setupChannel c) s (snd (connChannel L' (connection c) s))"
    by (rule openEffect_io [OF connChan.effect [OF run]])
  show "core (snd (connChannel L' (connection c) s)) = core s"
    by (rule connChan.frame(2) [OF run])
qed

lemma setupPublisher_io_effect:
  assumes chan: "connChannel L cn s = (Ok ch, s1)"
    and set: "Publisher_setup L p (Some ch) svc exch tr prop nameFn headers (s1\<lparr>core := k\<rparr>) = (r, t)"
  shows "io_effect cn sc s t"
proof -
  note eff = Publisher_setup_effect(1-3,5) [OF set]
  obtain cs where cs: "calls t = calls s1 @ cs" "list_all (setupCall cn) cs" "ch = NoopChannel \<longrightarrow> cs = []"
    using Publisher_setup_effect(4) [OF set, of cn] by auto
  obtain pub where pub: "pubs t = (pubs s1)(p := pub)" "channel pub = Some ch \<or> channel pub = channel (pubs s1 p)"
    using eff(4) by auto
  have "pub_effect s t"
  proof (rule pub_effect_assign)
    show "nextChan s \<le> nextChan t" using connChan.frame(6) [OF chan] eff(2) by simp
    show "pubs t = (pubs s)(p := pub)" using pub(1) connChan.frame(1) [OF chan] by simp
    show "channel (pubs s p) = Some (AmqpChannel n) \<or> (nextChan s \<le> n \<and> n < nextChan t)"
      if "channel pub = Some (AmqpChannel n)" for n
      using that pub(2) connChan.frame(1) [OF chan] connChan.opened [of L cn s n s1] chan eff(2) by auto
  qed
  moreover have "call_effect cn sc s t"
  proof -
    have "call_effect cn sc s s1"
      using openEffect_io [OF connChan.effect [OF chan], of sc] by (simp add: io_effect_def)
    moreover have "call_effect cn sc s1 t"
      using cs chan by (auto simp: call_effect_def connChannel_noop)
    ultimately show ?thesis by (rule call_effect_trans)
  qed
  moreover have "fwd_effect cn s t"
    using openEffect_io [OF connChan.effect [OF chan], of sc] eff(3) by (simp add: io_effect_def fwd_effect_def)
  ultimately show ?thesis by (simp add: io_effect_def)
qed

lemma keeps_openPublisher:
  "keeps (setup_at L c) (bindM (wrapM x (liftW (connChannel L (connection c))))
     (\<lambda>ch. thenM (addEndpoint ep) (setupPublisher L p ch en hs)))"
proof (rule keepsI)
  fix w :: world
  obtain r s1 where chan: "connChannel L (connection c) (wio w) = (r, s1)" by fastforce
  have fail: "setup_at L c w (w\<lparr>wio := s1\<rparr>)"
    by (rule keepsD [OF connChannel_at [of L c L]]) (simp add: liftW_run chan)
  show "setup_at L c w (snd (bindM (wrapM x (liftW (connChannel L (connection c))))
     (\<lambda>ch. thenM (addEndpoint ep) (setupPublisher L p ch en hs)) w))"
  proof (cases r)
    case (Ok ch)
    define k where "k = (core s1)\<lparr>topology := (topology (core s1))\<lparr>Endpoints := Endpoints (topology (core s1)) @ [ep]\<rparr>\<rparr>"
    obtain r2 t where set: "Publisher_setup L p (Some ch) (serviceName k) en (Some (connTracer L k))
        (connPropagator k) (publishSpanNameFn k) hs (s1\<lparr>core := k\<rparr>) = (r2, t)" by fastforce
    have "snd (bindM (wrapM x (liftW (connChannel L (connection c))))
       (\<lambda>ch. thenM (addEndpoint ep) (setupPublisher L p ch en hs)) w) = w\<lparr>wio := t\<rparr>"
      using set by (simp add: bindM_run wrapM_run liftW_run chan Ok addEndpoint_def onCore_run setupPublisher_def getM_run k_def
          split: res.split)
    moreover have "ownCore (core t) = ownCore (core (wio w))"
      using Publisher_setup_effect(1) [OF set] connChan.frame(2) [OF chan] by (simp add: k_def ownCore_def)
    moreover have "io_effect (connection c) (setupChannel c) (wio w) t"
      using setupPublisher_io_effect [OF _ set] chan Ok by simp
    ultimately show ?thesis
      using ownCore_connection [of "conn w" c] by (auto simp: setup_at_def setup_effect_def)
  qed (use fail in \<open>simp_all add: bindM_run wrapM_run liftW_run chan\<close>)
qed

lemmas keeps_openLogged = keeps_logged [OF setup_at.keeps_wrap [OF connChannel_at] keeps_openPublisher]


subsection \<open>The setup functions of the library\<close>

text \<open>A setup function that keeps within \<open>setup_effect\<close>.\<close>

definition well_behaved :: "lib \<Rightarrow> setupFn \<Rightarrow> bool" where
  "well_behaved L f \<longleftrightarrow> keeps (setup_effect L) (runSetup f)"

lemma library_publishers_behave [simp]:
  "well_behaved L (StreamPublisher L exch p)" "well_behaved L (EventStreamPublisher L p)"
  "well_behaved L (ServicePublisher L target p)" "well_behaved L (QueuePublisher L p q)"
proof -
  show stream: "well_behaved L (StreamPublisher L exch p)" for exch
    by (auto simp: well_behaved_def StreamPublisher_def packageSetup_def Let_def
        intro!: keeps_getConn setup_at.keeps_bind setup_at.keeps_wrap keeps_at_declare keeps_openLogged)
  show "well_behaved L (EventStreamPublisher L p)" by (simp add: EventStreamPublisher_def stream)
  show "well_behaved L (ServicePublisher L target p)"
    by (auto simp: well_behaved_def ServicePublisher_def packageSetup_def Let_def
        intro!: keeps_getConn setup_at.keeps_bind setup_at.keeps_wrap keeps_at_declare keeps_openLogged)
  show "well_behaved L (QueuePublisher L p q)"
    by (auto simp: well_behaved_def QueuePublisher_def packageSetup_def intro!: keeps_getConn keeps_openPublisher)
qed

lemma library_consumers_behave [simp]:
  "well_behaved L (StreamConsumer L exch rk T h opts)" "well_behaved L (EventStreamConsumer L rk T h opts)"
  "well_behaved L (TransientStreamConsumer L exch rk T h opts)" "well_behaved L (TransientEventStreamConsumer L rk T h opts)"
  "well_behaved L (ServiceResponseConsumer L target rk T h opts)" "well_behaved L (ServiceRequestConsumer L rk T h opts)"
  "well_behaved L (RequestResponseHandler L rk T marshal rh)"
proof -
  show stream: "well_behaved L (StreamConsumer L exch rk T h opts)" for exch
    by (auto simp: well_behaved_def StreamConsumer_def packageSetup_def Let_def
        intro!: keeps_getConn setup_atI keeps_bindConsumer)
  show "well_behaved L (EventStreamConsumer L rk T h opts)" by (simp add: EventStreamConsumer_def stream)
  show transient: "well_behaved L (TransientStreamConsumer L exch rk T h opts)" for exch
    by (auto simp: well_behaved_def TransientStreamConsumer_def packageSetup_def Let_def
        intro!: keeps_getConn setup_at.keeps_bind [OF keeps_at_uuid setup_atI [OF keeps_bindConsumer]])
  show "well_behaved L (TransientEventStreamConsumer L rk T h opts)"
    by (simp add: TransientEventStreamConsumer_def transient)
  show "well_behaved L (ServiceResponseConsumer L target rk T h opts)"
    by (auto simp: well_behaved_def ServiceResponseConsumer_def packageSetup_def
        intro!: keeps_getConn setup_atI keeps_bindConsumer)
  have request: "keeps (setup_effect L) (runSetup (ServiceRequestConsumer L rk T h opts))"
    for T :: "'x gotype" and h opts
    by (auto simp: ServiceRequestConsumer_def packageSetup_def Let_def
        intro!: keeps_getConn setup_at.keeps_bind [OF setup_at.keeps_wrap [OF keeps_at_declare(1)] setup_atI [OF keeps_bindConsumer]])
  show "well_behaved L (ServiceRequestConsumer L rk T h opts)" by (simp add: well_behaved_def request)
  show "well_behaved L (RequestResponseHandler L rk T marshal rh)"
    by (simp add: well_behaved_def RequestResponseHandler_def packageSetup_def request)
qed

lemma coreSetup_behaves: "(\<And>c. ownCore (f c) = ownCore c) \<Longrightarrow> well_behaved L (coreSetup name f)"
  by (simp add: well_behaved_def coreSetup_def keeps_onCore)

lemma WithLogger_behaves [simp]: "well_behaved L (WithLogger lg)"
proof (cases lg)
  case None
  then show ?thesis by (simp add: well_behaved_def WithLogger_def keeps_def panicM_run setup_effect.refl)
next
  case (Some l)
  then show ?thesis by (simp add: well_behaved_def WithLogger_def keeps_onCore ownCore_def)
qed

lemma library_options_behave [simp]:
  "well_behaved L (WithTracing tp)" "well_behaved L (WithPrefetchLimit limit)"
  "well_behaved L (WithNotificationChannel ch)" "well_behaved L (WithErrorChannel ch)"
  "well_behaved L (WithPropagator pr)" "well_behaved L (WithSpanNameFn f)" "well_behaved L (WithPublishSpanNameFn g)"
  "well_behaved L WithLegacySupport" "well_behaved L (CloseListener cl)"
  unfolding WithTracing_def WithPrefetchLimit_def WithNotificationChannel_def WithErrorChannel_def
    WithPropagator_def WithSpanNameFn_def WithPublishSpanNameFn_def WithLegacySupport_def CloseListener_def
  by (rule coreSetup_behaves; simp add: ownCore_def)+

lemma keeps_runSetups:
  "list_all (well_behaved L) setups \<Longrightarrow> keeps (setup_effect L) (runSetups setups)"
  "list_all (well_behaved L) setups \<Longrightarrow> keeps (setup_effect L) (forM runSetup setups)"
  unfolding runSetups_def
  by (auto simp: list_all_iff well_behaved_def intro!: setup_effect.keeps_forM setup_effect.keeps_wrap)

end
