(* ===== verification/Start_Close.thy ===== *)
theory Start_Close
  imports Lifecycle
begin

text \<open>
  \<open>Start\<close> and \<open>Close\<close>: the settings every channel is opened with, the channels and their owners,
  the consumers that run after a successful start, and what closing does. The life of a
  connection is a step relation over \<open>Start\<close>, \<open>Close\<close> and the publishing calls, with the ownership
  of channels as its invariant.
\<close>

subsection \<open>The settings of the dialled connection\<close>

text \<open>Everything after dialling opens channels with the settings that were dialled.\<close>

definition dial_rel :: "world \<Rightarrow> world \<Rightarrow> bool" where
  "dial_rel w w' \<longleftrightarrow> (connection (conn w') = connection (conn w) \<and> started (conn w') = started (conn w)) \<and>
     (\<exists>cs fs. calls (wio w') = calls (wio w) @ cs \<and> forwarders (wio w') = forwarders (wio w) @ fs
        \<and> (\<forall>n a b g. Qos n a b g \<in> set cs \<longrightarrow> dialled (connection (conn w)) a)
        \<and> (\<forall>url cfg. Dial url cfg \<notin> set cs)
        \<and> (\<forall>n l. FwdChannel n l \<in> set fs \<longrightarrow> listens (connection (conn w)) l))"

definition dial_at :: "connCore \<Rightarrow> world \<Rightarrow> world \<Rightarrow> bool" where
  "dial_at c w w' \<longleftrightarrow> (connection (conn w) = connection c \<longrightarrow> dial_rel w w')"

lemma dial_relI:
  assumes "connection (conn w') = connection (conn w) \<and> started (conn w') = started (conn w)"
    and "calls (wio w') = calls (wio w) @ cs"
    and "forwarders (wio w') = forwarders (wio w) @ fs"
    and "\<And>n a b g. Qos n a b g \<in> set cs \<Longrightarrow> dialled (connection (conn w)) a"
    and "\<And>url cfg. Dial url cfg \<notin> set cs"
    and "\<And>n l. FwdChannel n l \<in> set fs \<Longrightarrow> listens (connection (conn w)) l"
  shows "dial_rel w w'"
  using assms unfolding dial_rel_def by blast

interpretation dial_rel: effect_rel dial_rel
proof (unfold_locales, goal_cases)
  case (1 s)
  show ?case by (rule dial_relI [where cs = "[]" and fs = "[]"]) simp_all
next
  case (2 s t u)
  obtain cs fs where t: "connection (conn t) = connection (conn s) \<and> started (conn t) = started (conn s)" "calls (wio t) = calls (wio s) @ cs"
    "forwarders (wio t) = forwarders (wio s) @ fs"
    "\<And>n a b g. Qos n a b g \<in> set cs \<Longrightarrow> dialled (connection (conn s)) a" "\<And>url cfg. Dial url cfg \<notin> set cs"
    "\<And>n l. FwdChannel n l \<in> set fs \<Longrightarrow> listens (connection (conn s)) l"
    using 2(1) unfolding dial_rel_def by blast
  obtain cs' fs' where u: "connection (conn u) = connection (conn t) \<and> started (conn u) = started (conn t)" "calls (wio u) = calls (wio t) @ cs'"
    "forwarders (wio u) = forwarders (wio t) @ fs'"
    "\<And>n a b g. Qos n a b g \<in> set cs' \<Longrightarrow> dialled (connection (conn t)) a" "\<And>url cfg. Dial url cfg \<notin> set cs'"
    "\<And>n l. FwdChannel n l \<in> set fs' \<Longrightarrow> listens (connection (conn t)) l"
    using 2(2) unfolding dial_rel_def by blast
  show ?case
    by (rule dial_relI [where cs = "cs @ cs'" and fs = "fs @ fs'"]) (use t u in auto)
qed

interpretation dial_at: effect_rel "dial_at c" for c :: connCore
proof (unfold_locales, goal_cases)
  case (2 s t u)
  then show ?case unfolding dial_at_def using dial_rel.trans by (metis dial_rel_def)
qed (simp add: dial_at_def dial_rel.refl)

lemma dial_atI: "keeps dial_rel m \<Longrightarrow> keeps (dial_at c) m"
  by (simp add: keeps_def dial_at_def)

lemma dial_getConn: "(\<And>c. keeps (dial_at c) (f c)) \<Longrightarrow> keeps dial_rel (bindM (getM conn) f)"
  by (auto simp: keeps_def dial_at_def bindM_run getM_run)

lemma setup_effect_dial: "setup_effect L w w' \<Longrightarrow> dial_rel w w'"
proof -
  assume eff: "setup_effect L w w'"
  obtain cs where cs: "calls (wio w') = calls (wio w) @ cs" "list_all (setupCall (connection (conn w))) cs"
    using eff by (auto simp: setup_effect_def io_effect_def call_effect_def)
  obtain fs where fs: "forwarders (wio w') = forwarders (wio w) @ fs" "list_all (fwdOf (connection (conn w))) fs"
    using eff by (auto simp: setup_effect_def io_effect_def fwd_effect_def)
  show ?thesis
  proof (rule dial_relI [OF _ cs(1) fs(1)])
    show "connection (conn w') = connection (conn w) \<and> started (conn w') = started (conn w)"
      using eff by (simp add: setup_effect_def ownCore_def)
  qed (use cs(2) fs(2) in \<open>auto simp: list_all_iff\<close>)
qed

lemma dial_setups: "list_all (well_behaved L) setups \<Longrightarrow> keeps dial_rel (runSetups setups)"
  using keeps_runSetups(1) [of L setups] by (auto simp: keeps_def intro: setup_effect_dial)

lemma dial_onCore:
  "(\<And>c. connection (f c) = connection c \<and> started (f c) = started c) \<Longrightarrow> keeps dial_rel (onCore f)"
  by (rule keepsI, rule dial_relI [where cs = "[]" and fs = "[]"]) (simp_all add: onCore_run)

lemma dial_connChannel: "keeps (dial_at c) (liftW (connChannel L (connection c)))"
proof (rule keepsI)
  fix w :: world
  obtain r s where run: "connChannel L (connection c) (wio w) = (r, s)" by fastforce
  from connChan.effect [OF run] obtain cs fs where
    s: "calls s = calls (wio w) @ cs" "forwarders s = forwarders (wio w) @ fs"
      "list_all (openCall (connection c)) cs" "list_all (fwdOf (connection c)) fs" "core s = core (wio w)"
    by (auto simp: openEffect_def)
  show "dial_at c w (snd (liftW (connChannel L (connection c)) w))"
    unfolding dial_at_def
  proof
    assume c: "connection (conn w) = connection c"
    show "dial_rel w (snd (liftW (connChannel L (connection c)) w))"
      by (rule dial_relI [where cs = cs and fs = fs]) (use s c in \<open>auto simp: liftW_run run list_all_iff\<close>)
  qed
qed

lemma dial_invoke:
  "(\<And>n a b g. call \<noteq> Qos n a b g) \<Longrightarrow> (\<And>url cfg. call \<noteq> Dial url cfg) \<Longrightarrow> keeps dial_rel (liftW (invoke L call))"
  by (rule keepsI, rule dial_relI [where cs = "[call]" and fs = "[]"])
    (simp_all add: liftW_run invoke_run split: option.split, metis+)

lemma dial_onChannel:
  assumes "\<And>m n a b g. call m \<noteq> Qos n a b g" and "\<And>m url cfg. call m \<noteq> Dial url cfg"
  shows "keeps dial_rel (liftW (onChannel ch (\<lambda>n. invoke L (call n))))"
proof (cases ch)
  case None
  then show ?thesis by (simp add: keeps_def liftW_run panicM_run dial_rel.refl)
next
  case (Some a)
  show ?thesis
  proof (cases a)
    case NoopChannel
    with Some show ?thesis by (simp add: keeps_def liftW_run returnM_run dial_rel.refl)
  next
    case (AmqpChannel n)
    with Some dial_invoke [of "call n" L] assms show ?thesis by simp
  qed
qed

lemma dial_try: "keeps dial_rel (liftW m) \<Longrightarrow> keeps dial_rel (liftW (tryM m))"
proof -
  have "snd (liftW (tryM m) w) = snd (liftW m w)" for w
    by (simp add: liftW_run tryM_run split: prod.split res.split)
  then show "keeps dial_rel (liftW m) \<Longrightarrow> keeps dial_rel (liftW (tryM m))" by (simp add: keeps_def)
qed

lemma dial_channelInto:
  assumes "\<And>ch c. connection (assign ch c) = connection c \<and> started (assign ch c) = started c"
    and "keeps dial_rel cleanup"
  shows "keeps dial_rel (channelInto L assign cleanup what)"
proof (rule keepsI)
  fix w :: world
  let ?m = "liftW (connChannel L (connection (conn w)))"
  have m: "dial_rel w (snd (?m w))"
    using dial_connChannel [of "conn w" L] by (simp add: keeps_def dial_at_def)
  have a: "keeps dial_rel (onCore (assign ch))" for ch by (rule dial_onCore) (simp add: assms(1))
  have f: "keeps dial_rel (thenM (onCore (assign None)) (thenM cleanup (failM (ErrWrap what e))))" for e
    by (intro dial_rel.keeps_bind a assms(2) dial_rel.keeps_fail)
  show "dial_rel w (snd (channelInto L assign cleanup what w))"
  proof (cases "?m w")
    case (Pair r w')
    with m have w': "dial_rel w w'" by simp
    from a f have "dial_rel w (snd (onCore (assign ch) w'))"
      "dial_rel w (snd (thenM (onCore (assign None)) (thenM cleanup (failM (ErrWrap what e))) w'))" for ch e
      unfolding keeps_def using dial_rel.trans [OF w'] by blast+
    with w' Pair show ?thesis unfolding channelInto_def by (cases r) simp_all
  qed
qed


lemma dial_updConsumer: "keeps dial_rel (updConsumer q f)"
  by (rule keepsI, rule dial_relI [where cs = "[]" and fs = "[]"]) (simp_all add: updConsumer_def putM_run)

lemma dial_startConsumer: "keeps dial_rel (startConsumer L entry)"
proof -
  have loop: "keeps dial_rel (putM (\<lambda>w. w\<lparr>loops := loops w @ [x]\<rparr>))" for x
    by (rule keepsI, rule dial_relI [where cs = "[]" and fs = "[]"]) (simp_all add: putM_run)
  have consume: "keeps dial_rel (wrapM what (liftW (chConsume L' (Some ch) q k b1 b2 b3 b4 t)))" for what L' ch q k b1 b2 b3 b4 t
    unfolding chConsume_def by (intro dial_rel.keeps_wrap dial_onChannel) simp_all
  have chans: "keeps dial_rel (onCore (\<lambda>c. c\<lparr>consumerChannels := consumerChannels c @ [ch]\<rparr>))" for ch
    by (rule dial_onCore) simp
  show ?thesis
    unfolding startConsumer_def Let_def queueConsumer_consume_def prod.case
    by (intro dial_getConn dial_at.keeps_bind dial_at.keeps_wrap dial_connChannel dial_atI
        dial_updConsumer loop consume chans keeps_useLogger dial_rel.refl)
qed

lemma dial_startConsumers: "keeps dial_rel (startConsumers L)"
proof (rule keepsI)
  fix w :: world
  have "keeps dial_rel (forM (startConsumer L) es)" for es
    by (rule dial_rel.keeps_forM) (rule dial_startConsumer)
  then show "dial_rel w (snd (startConsumers L w))"
    by (simp add: startConsumers_def keeps_def dial_rel.refl split: option.split)
qed

lemma dial_notifyClose: "keeps dial_rel notifyConnectionClose"
proof (rule keepsI)
  fix w :: world
  show "dial_rel w (snd (notifyConnectionClose w))"
  proof (cases "snd (notifyConnectionClose w) = w")
    case False
    then have "calls (wio (snd (notifyConnectionClose w))) = calls (wio w) @ [NotifyConnectionClose]
      \<and> forwarders (wio (snd (notifyConnectionClose w))) = forwarders (wio w) @ [FwdConnection]
      \<and> conn (snd (notifyConnectionClose w)) = conn w"
      by (auto simp: notifyConnectionClose_def run_simps split: option.splits amqpConnection.splits)
    then show ?thesis by (auto intro: dial_relI)
  qed (simp add: dial_rel.refl)
qed

text \<open>The part of \<open>Start\<close> after dialling, up to the flag.\<close>

definition startUp :: "lib \<Rightarrow> setupFn list \<Rightarrow> (world, unit) M" where
  "startUp L opts =
     thenM useLogger
       (thenM (channelInto L (\<lambda>ch c. c\<lparr>responseChannel := ch\<rparr>) (returnM ()) ''failed to create response channel: '')
       (thenM (channelInto L (\<lambda>ch c. c\<lparr>setupChannel := ch\<rparr>)
           (bindM (getM conn) (\<lambda>c. thenM (liftW (tryM (chClose L (responseChannel c)))) (returnM ())))
           ''failed to create setup channel: '')
       (thenM (runSetups opts)
       (thenM (wrapM ''failed to close setup channel: ''
           (bindM (getM conn) (\<lambda>c. liftW (chClose L (setupChannel c)))))
       (thenM notifyConnectionClose
       (startConsumers L))))))"

definition prepareStart :: "world \<Rightarrow> world" where
  "prepareStart w = w\<lparr>wio := (wio w)\<lparr>core := ensureLogger (conn w)\<rparr>, registry := Some (case registry w of None \<Rightarrow> newQueueConsumers | Some qcs \<Rightarrow> qcs)\<rparr>"

lemma prepareStart_simps [simp]:
  "wio (prepareStart w) = (wio w)\<lparr>core := ensureLogger (conn w)\<rparr>" "loops (prepareStart w) = loops w"
  by (simp_all add: prepareStart_def)

lemma Start_run:
  "Start L opts w =
     (if started (conn w) then (Err ErrAlreadyStarted, w)
      else thenM (thenM (if connection (conn w) = None then connectToAmqpURL L else returnM ()) (startUp L opts))
        (thenM (onCore (\<lambda>c. c\<lparr>started := True\<rparr>)) useLogger) (prepareStart w))"
  unfolding Start_def startUp_def prepareStart_def
  by (simp add: bindM_Ok [OF getM_run] bindM_Ok [OF putM_run] bindM_Ok [OF onCore_run] failM_run bindM_assoc)

lemma dial_startUp:
  assumes "list_all (well_behaved L) opts"
  shows "keeps dial_rel (startUp L opts)"
  unfolding startUp_def chClose_def
  by (intro dial_rel.keeps_bind keeps_useLogger dial_rel.refl dial_channelInto dial_rel.keeps_return dial_rel.keeps_get dial_try
      dial_onChannel dial_setups [OF assms] dial_rel.keeps_wrap dial_notifyClose dial_startConsumers) simp_all

text \<open>
  C22: the settings of a connection's channels are those from before \<open>Start\<close>. On a connection
  that has not been dialled, whatever setup functions of the library are passed, and whether the
  start succeeds or fails: every channel is opened with the prefetch limit the connection had when
  \<open>Start\<close> was called, and the close events of a channel are forwarded only to a listener set before. So
  \<open>WithPrefetchLimit\<close> and, for channels, \<open>CloseListener\<close> have no effect: for a connection made by
  \<open>NewFromURL\<close> the limit is always 20 and no channel's close event reaches a listener.
\<close>

theorem Start_ignores_prefetch_option:
  assumes "list_all (well_behaved L) opts" and "connection (conn w) = None"
    and "Start L opts w = (r, t)"
  shows "\<exists>cs fs. calls (wio t) = calls (wio w) @ cs \<and> forwarders (wio t) = forwarders (wio w) @ fs
    \<and> (\<forall>n a b g. Qos n a b g \<in> set cs \<longrightarrow> a = prefetchLimit (conn w))
    \<and> (\<forall>n l. FwdChannel n l \<in> set fs \<longrightarrow> closeListener (conn w) = Some l)
    \<and> (\<forall>svc url. (conn w, the (registry w)) = newConnection svc url \<longrightarrow>
        (\<forall>n a b g. Qos n a b g \<in> set cs \<longrightarrow> a = 20) \<and> (\<forall>n l. FwdChannel n l \<notin> set fs))"
proof (cases "started (conn w)")
  case True
  with assms(3) show ?thesis by (auto simp: Start_run)
next
  case False
  let ?call = "Dial (amqpUri (conn w)) (amqpConfig L (serviceName (conn w)))"
  let ?w1 = "(prepareStart w)\<lparr>wio := (wio (prepareStart w))\<lparr>calls := calls (wio w) @ [?call]\<rparr>\<rparr>"
  show ?thesis
  proof (cases "amqpErr L (calls (wio w)) ?call")
    case (Some e)
    with assms(2,3) False show ?thesis
      by (auto simp: Start_run connectToAmqpURL_def run_simps prepareStart_def)
  next
    case None
    let ?w2 = "?w1\<lparr>wio := (wio ?w1)\<lparr>core := (ensureLogger (conn w))\<lparr>connection := Some (AmqpConn (prefetchLimit (conn w)) (closeListener (conn w)))\<rparr>\<rparr>\<rparr>"
    obtain r' t' where up: "startUp L opts ?w2 = (r', t')" by fastforce
    have "calls (wio t) = calls (wio t') \<and> forwarders (wio t) = forwarders (wio t')"
      using None assms(2,3) False up
      by (auto simp: Start_run connectToAmqpURL_def run_simps prepareStart_def split: res.splits option.splits)
    with keepsD [OF dial_startUp [OF assms(1)] up] obtain cs fs where
      t: "calls (wio t) = calls (wio w) @ ?call # cs" "forwarders (wio t) = forwarders (wio w) @ fs"
        "\<forall>n a b g. Qos n a b g \<in> set cs \<longrightarrow> a = prefetchLimit (conn w)"
        "\<forall>n l. FwdChannel n l \<in> set fs \<longrightarrow> closeListener (conn w) = Some l"
      by (auto simp: dial_rel_def dialled_def listens_def)
    have new: "prefetchLimit (conn w) = 20 \<and> closeListener (conn w) = None"
      if "(conn w, the (registry w)) = newConnection svc url" for svc url
      using that by (simp add: newConnection_def)
    have "\<forall>n a b g. Qos n a b g \<in> set (?call # cs) \<longrightarrow> a = prefetchLimit (conn w)" using t(3) by simp
    with t(1,2,4) new show ?thesis
      by (intro exI [of _ "?call # cs"] exI [of _ fs]) (metis option.distinct(1))
  qed
qed


text \<open>A new connection, and a start with a prefetch option and a consumer.\<close>

definition newWorld :: "string \<Rightarrow> string \<Rightarrow> io \<Rightarrow> world" where
  "newWorld svc url s = (case newConnection svc url of (c, qcs) \<Rightarrow>
     \<lparr>wio = s\<lparr>core := c\<rparr>, registry = Some qcs, loops = []\<rparr>)"

lemma newWorld_simps [simp]:
  "conn (newWorld svc url s) = fst (newConnection svc url)" "registry (newWorld svc url s) = Some newQueueConsumers"
  "loops (newWorld svc url s) = []" "wio (newWorld svc url s) = s\<lparr>core := fst (newConnection svc url)\<rparr>"
  by (simp_all add: newWorld_def newConnection_def)

theorem Start_ignores_prefetch_option_witness:
  "\<exists>cs. calls (wio (snd (Start demoLib [WithPrefetchLimit 1, EventStreamPublisher demoLib 0] (newWorld ''svc'' ''amqp://h'' demoIO)))) = cs
     \<and> (\<forall>n a b g. Qos n a b g \<in> set cs \<longrightarrow> a = 20)"
proof -
  have none: "connection (conn (newWorld ''svc'' ''amqp://h'' demoIO)) = None" by (simp add: newConnection_def)
  from Start_ignores_prefetch_option [OF _ none surjective_pairing, of demoLib "[WithPrefetchLimit 1, EventStreamPublisher demoLib 0]"]
  obtain cs where "calls (wio (snd (Start demoLib [WithPrefetchLimit 1, EventStreamPublisher demoLib 0]
      (newWorld ''svc'' ''amqp://h'' demoIO)))) = cs" "\<forall>n a b g. Qos n a b g \<in> set cs \<longrightarrow> a = prefetchLimit (fst (newConnection ''svc'' ''amqp://h''))"
    by auto
  then show ?thesis by (auto simp: newConnection_def)
qed


subsection \<open>Who owns a channel\<close>

datatype owner = OwnResponse | OwnSetup | OwnPublisher nat | OwnConsumer nat

fun owns :: "world \<Rightarrow> owner \<Rightarrow> nat \<Rightarrow> bool" where
  "owns w OwnResponse n = (responseChannel (conn w) = Some (AmqpChannel n))"
| "owns w OwnSetup n = (setupChannel (conn w) = Some (AmqpChannel n))"
| "owns w (OwnPublisher p) n = (channel (pubs (wio w) p) = Some (AmqpChannel n))"
| "owns w (OwnConsumer i) n = (i < length (consumerChannels (conn w)) \<and> consumerChannels (conn w) ! i = AmqpChannel n)"

text \<open>The invariant: every owned channel has been opened, and no channel has two owners.\<close>

definition channels_ok :: "world \<Rightarrow> bool" where
  "channels_ok w \<longleftrightarrow> (\<forall>o' n. owns w o' n \<longrightarrow> n < nextChan (wio w)) \<and>
     (\<forall>o' o'' n. owns w o' n \<and> owns w o'' n \<longrightarrow> o' = o'')"

definition own_rel :: "world \<Rightarrow> world \<Rightarrow> bool" where
  "own_rel w w' \<longleftrightarrow> nextChan (wio w) \<le> nextChan (wio w') \<and> (channels_ok w \<longrightarrow> channels_ok w')"

interpretation own_rel: effect_rel own_rel
  by unfold_locales (auto simp: own_rel_def)

lemma own_relI:
  assumes "nextChan (wio w) \<le> nextChan (wio w')"
    and "\<And>o' n. owns w' o' n \<Longrightarrow> owns w o' n \<or> (o' = new \<and> nextChan (wio w) \<le> n \<and> n < nextChan (wio w'))"
  shows "own_rel w w'"
proof -
  have "channels_ok w'" if ok: "channels_ok w"
    unfolding channels_ok_def
  proof (intro conjI allI impI, goal_cases)
    case (1 o' n)
    then show ?case using assms(2) [of o' n] ok assms(1) unfolding channels_ok_def by fastforce
  next
    case (2 o' o'' n)
    then show ?case using assms(2) [of o' n] assms(2) [of o'' n] ok unfolding channels_ok_def by (metis leD)
  qed
  with assms(1) show ?thesis by (simp add: own_rel_def)
qed

lemma own_same:
  assumes "\<And>o' n. owns w' o' n \<Longrightarrow> owns w o' n" and "nextChan (wio w) \<le> nextChan (wio w')"
  shows "own_rel w w'"
  by (rule own_relI [where new = OwnSetup, OF assms(2)]) (simp add: assms(1))

text \<open>
  What a setup function assigns to publishers: every publisher keeps its channel or gets one of its own
  that was opened since, and the other owners keep theirs.
\<close>

lemma publishers_ok: "channels_ok w \<Longrightarrow> pubs_ok (wio w)"
  unfolding pubs_ok_def channels_ok_def by (metis owns.simps(3) owner.inject(1))

lemma owners_apart:
  assumes ok: "channels_ok w" and pubs: "pubs_ok (wio w')"
    and same: "\<And>o' n. (\<And>p. o' \<noteq> OwnPublisher p) \<Longrightarrow> owns w' o' n \<longleftrightarrow> owns w o' n"
    and old: "\<And>p n. owns w' (OwnPublisher p) n \<Longrightarrow> owns w (OwnPublisher p) n \<or> nextChan (wio w) \<le> n"
    and two: "owns w' o' n" "owns w' o'' n"
  shows "o' = o''"
proof -
  have less: "owns w x m \<Longrightarrow> m < nextChan (wio w)" for x m using ok by (simp add: channels_ok_def)
  have mixed: "x = y" if "owns w' (OwnPublisher p) n" "x = OwnPublisher p" "owns w' y n" "\<And>p. y \<noteq> OwnPublisher p" for x y p
    using old [OF that(1)] same [OF that(4)] that less [of y n] ok by (auto simp: channels_ok_def dest: leD)
  show ?thesis
  proof (cases "\<exists>p. o' = OwnPublisher p"; cases "\<exists>p. o'' = OwnPublisher p")
    assume "\<exists>p. o' = OwnPublisher p" "\<exists>p. o'' = OwnPublisher p"
    with two pubs show ?thesis by (auto simp: pubs_ok_def)
  next
    assume "\<not> (\<exists>p. o' = OwnPublisher p)" "\<not> (\<exists>p. o'' = OwnPublisher p)"
    then have "owns w o' n" "owns w o'' n" using two same by blast+
    with ok show ?thesis unfolding channels_ok_def by blast
  qed (use two mixed in metis)+
qed

lemma setup_effect_own:
  assumes "setup_effect L w w'"
  shows "own_rel w w'"
proof -
  have own: "ownCore (conn w') = ownCore (conn w)" and pub: "pub_effect (wio w) (wio w')"
    using assms by (simp_all add: setup_effect_def io_effect_def)
  have same: "owns w' o' n \<longleftrightarrow> owns w o' n" if "\<And>p. o' \<noteq> OwnPublisher p" for o' n
    using that own by (cases o') (auto simp: ownCore_def)
  have old: "owns w (OwnPublisher p) n \<or> nextChan (wio w) \<le> n" if "owns w' (OwnPublisher p) n" for p n
    using that pub by (simp add: pub_effect_def)
  have "channels_ok w'" if ok: "channels_ok w"
    unfolding channels_ok_def
  proof (intro conjI allI impI, goal_cases)
    have pok: "pubs_ok (wio w')" using pub publishers_ok [OF ok] by (simp add: pub_effect_def)
    {
      case (1 o' n)
      show ?case
      proof (cases "\<exists>p. o' = OwnPublisher p")
        case True
        with 1 pok show ?thesis by (auto simp: pubs_ok_def)
      next
        case False
        with 1 same ok pub show ?thesis by (fastforce simp: pub_effect_def channels_ok_def)
      qed
    next
      case (2 o' o'' n)
      then show ?case using owners_apart [OF ok pok same old] by blast
    }
  qed
  with pub show ?thesis by (simp add: own_rel_def pub_effect_def)
qed


lemma own_liftW:
  assumes "\<And>s. nextChan (snd (m s)) = nextChan s \<and> core (snd (m s)) = core s"
    and "\<And>s p. channel (pubs (snd (m s)) p) = channel (pubs s p)"
  shows "keeps own_rel (liftW m)"
proof (rule keepsI)
  fix w :: world
  have w': "snd (liftW m w) = w\<lparr>wio := snd (m (wio w))\<rparr>" by (simp add: liftW_run split: prod.split)
  show "own_rel w (snd (liftW m w))"
  proof (rule own_same)
    show "owns w o' n" if "owns (snd (liftW m w)) o' n" for o' n
      using that assms [of "wio w"] by (cases o') (simp_all add: w')
  qed (simp add: w' assms(1))
qed

lemma own_onCore:
  assumes "\<And>c. responseChannel (f c) = responseChannel c \<and> setupChannel (f c) = setupChannel c
    \<and> consumerChannels (f c) = consumerChannels c"
  shows "keeps own_rel (onCore f)"
proof (rule keepsI)
  fix w :: world
  show "own_rel w (snd (onCore f w))"
  proof (rule own_same)
    show "owns w o' n" if "owns (snd (onCore f w)) o' n" for o' n
      using that assms by (cases o') (simp_all add: onCore_run)
  qed (simp add: onCore_run)
qed

lemma own_onChannel:
  "keeps own_rel (liftW (onChannel ch (\<lambda>n. invoke L (call n))))"
  "keeps own_rel (liftW (tryM (onChannel ch (\<lambda>n. invoke L (call n)))))"
  by (rule own_liftW; auto simp: onChannel_def run_simps split: option.split amqpChannel.split)+

lemma own_world: "(\<And>w. wio (f w) = wio w) \<Longrightarrow> keeps own_rel (putM f)"
proof (rule keepsI)
  fix w :: world assume f: "\<And>w. wio (f w) = wio w"
  show "own_rel w (snd (putM f w))"
  proof (rule own_same)
    show "owns w o' n" if "owns (snd (putM f w)) o' n" for o' n
      using that f by (cases o') (simp_all add: putM_run)
  qed (simp add: putM_run f)
qed

text \<open>Opening a channel and giving it to one owner.\<close>

lemma own_open_assign:
  assumes chan: "connChannel L cn (wio w) = (Ok ch, s1)"
    and slot: "\<And>o' n. owns (w\<lparr>wio := s1\<lparr>core := k\<rparr>\<rparr>) o' n \<Longrightarrow> owns (w\<lparr>wio := s1\<rparr>) o' n \<or> (o' = new \<and> ch = AmqpChannel n)"
  shows "own_rel w (w\<lparr>wio := s1\<lparr>core := k\<rparr>\<rparr>)"
proof (rule own_relI [where new = new])
  show "nextChan (wio w) \<le> nextChan (wio (w\<lparr>wio := s1\<lparr>core := k\<rparr>\<rparr>))" using connChan.frame(6) [OF chan] by simp
  have same: "owns (w\<lparr>wio := s1\<rparr>) o' n \<longleftrightarrow> owns w o' n" for o' n
    by (cases o') (simp_all add: connChan.frame(1,2) [OF chan])
  show "owns w o' n \<or> (o' = new \<and> nextChan (wio w) \<le> n \<and> n < nextChan (wio (w\<lparr>wio := s1\<lparr>core := k\<rparr>\<rparr>)))"
    if "owns (w\<lparr>wio := s1\<lparr>core := k\<rparr>\<rparr>) o' n" for o' n
    using slot [OF that] same connChan.opened [of L cn "wio w" n s1] chan by auto
qed

lemma own_connChannel: "keeps own_rel (liftW (connChannel L cn))"
proof (rule keepsI)
  fix w :: world
  obtain r s1 where run: "connChannel L cn (wio w) = (r, s1)" by fastforce
  show "own_rel w (snd (liftW (connChannel L cn) w))"
  proof (rule own_same)
    show "owns w o' n" if "owns (snd (liftW (connChannel L cn) w)) o' n" for o' n
      using that by (cases o') (simp_all add: liftW_run run connChan.frame(1,2) [OF run])
  qed (simp add: liftW_run run connChan.frame(6) [OF run])
qed

lemma own_connChannelD: "connChannel L cn (wio w) = (r, s1) \<Longrightarrow> own_rel w (w\<lparr>wio := s1\<rparr>)"
  by (rule keepsD [OF own_connChannel [of L cn], of _ r]) (simp add: liftW_run)

lemma own_channelInto:
  assumes slot: "\<And>v ch o' n. owns (v\<lparr>wio := (wio v)\<lparr>core := assign ch (conn v)\<rparr>\<rparr>) o' n \<Longrightarrow>
      owns v o' n \<or> (o' = new \<and> ch = Some (AmqpChannel n))"
    and clean: "keeps own_rel cleanup"
  shows "keeps own_rel (channelInto L assign cleanup what)"
proof (rule keepsI)
  fix w :: world
  obtain r s1 where run: "connChannel L (connection (conn w)) (wio w) = (r, s1)" by fastforce
  let ?w1 = "w\<lparr>wio := s1\<rparr>"
  have opened: "own_rel w ?w1" by (rule own_connChannelD [OF run])
  have none: "keeps own_rel (onCore (assign None))"
  proof (rule keepsI)
    fix v :: world
    show "own_rel v (snd (onCore (assign None) v))"
      by (rule own_same) (use slot [where v = v and ch = None] in \<open>auto simp: onCore_run\<close>)
  qed
  show "own_rel w (snd (channelInto L assign cleanup what w))"
  proof (cases r)
    case (Ok ch)
    have "own_rel w (w\<lparr>wio := s1\<lparr>core := assign (Some ch) (core s1)\<rparr>\<rparr>)"
      by (rule own_open_assign [where new = new]) (use run Ok slot [where v = ?w1 and ch = "Some ch"] in auto)
    then show ?thesis by (simp add: channelInto_def liftW_run run Ok onCore_run)
  next
    case (Err e)
    have "keeps own_rel (thenM (onCore (assign None)) (thenM cleanup (failM (ErrWrap what e))))"
      by (intro own_rel.keeps_bind none clean own_rel.keeps_fail)
    then have "own_rel ?w1 (snd (thenM (onCore (assign None)) (thenM cleanup (failM (ErrWrap what e))) ?w1))"
      by (rule keeps_snd)
    from own_rel.trans [OF opened this] show ?thesis
      by (simp add: channelInto_def liftW_run run Err)
  qed (use opened in \<open>simp_all add: channelInto_def liftW_run run\<close>)
qed

text \<open>The steps of \<open>startConsumer\<close> after its channel is open.\<close>

definition consumeOn :: "lib \<Rightarrow> connCore \<Rightarrow> string \<times> queueConsumer \<Rightarrow> amqpChannel \<Rightarrow> (world, unit) M" where
  "consumeOn L c entry ch =
     (let qc = configureConsumer L c (snd entry) in
      thenM (updConsumer (fst entry) (\<lambda>_. qc\<lparr>qcNotificationCh := notificationCh c, qcErrorCh := errorCh c\<rparr>))
      (thenM (wrapM (''failed to create consumer for queue '' @ queue (snd entry) @ '': '')
        (liftW (chConsume L (Some ch) (queue qc) [] False False False False None)))
      (thenM useLogger
      (putM (\<lambda>w. w\<lparr>loops := loops w @ [(ch, fst entry)]\<rparr>)))))"

definition putConsumer :: "string \<Rightarrow> queueConsumer \<Rightarrow> world \<Rightarrow> world" where
  "putConsumer q qc w = w\<lparr>registry := map_option (\<lambda>qcs. qcs\<lparr>consumers := AList.map_entry q (\<lambda>_. qc) (consumers qcs)\<rparr>) (registry w)\<rparr>"

lemma startConsumer_nil: "logger (conn w) = None \<Longrightarrow> startConsumer L entry w = (Panic nilDereference, w)"
  by (simp add: startConsumer_def Let_def bindM_run getM_run useLogger_run)

lemma startConsumer_run:
  assumes "logger (conn w) \<noteq> None" and "connChannel L (connection (conn w)) (wio w) = (r, s1)"
    and "w1 = putConsumer (fst entry) (configureConsumer L (conn w) (snd entry)) w"
  shows "startConsumer L entry w =
    (case r of
       Ok ch \<Rightarrow> consumeOn L (conn w) entry ch
         (w1\<lparr>wio := s1\<lparr>core := (core s1)\<lparr>consumerChannels := consumerChannels (core s1) @ [ch]\<rparr>\<rparr>\<rparr>)
     | Err e \<Rightarrow> (Err (ErrWrap (''failed to create consumer channel for queue '' @ queue (snd entry) @ '': '') e), w1\<lparr>wio := s1\<rparr>)
     | Panic p \<Rightarrow> (Panic p, w1\<lparr>wio := s1\<rparr>)
     | Blocked \<Rightarrow> (Blocked, w1\<lparr>wio := s1\<rparr>))"
proof -
  have w1: "updConsumer (fst entry) (\<lambda>_. configureConsumer L (conn w) (snd entry)) w = (Ok (), w1)" "wio w1 = wio w"
    by (simp_all add: updConsumer_def putM_run assms(3) putConsumer_def)
  have log: "useLogger w = (Ok (), w)" by (simp add: assms(1))
  have chan: "wrapM what (liftW (connChannel L (connection (conn w)))) w1 =
      (case r of Err e \<Rightarrow> Err (ErrWrap what e) | _ \<Rightarrow> r, w1\<lparr>wio := s1\<rparr>)" for what
    by (simp add: wrapM_run liftW_run w1(2) assms(2) split: res.split)
  show ?thesis
    unfolding startConsumer_def Let_def bindM_Ok [OF getM_run] bindM_Ok [of useLogger, OF log]
      bindM_Ok [of "updConsumer _ _", OF w1(1)]
    by (cases r) (simp_all add: bindM_run [of "wrapM _ _"] chan bindM_Ok [OF onCore_run]
        queueConsumer_consume_def consumeOn_def Let_def)
qed

lemma own_startConsumer: "keeps own_rel (startConsumer L entry)"
proof (rule keepsI)
  fix w :: world
  let ?qc = "configureConsumer L (conn w) (snd entry)"
  define w1 where "w1 = putConsumer (fst entry) ?qc w"
  have w1: "own_rel w w1" "conn w1 = conn w" "wio w1 = wio w"
    using own_world [of "putConsumer (fst entry) ?qc"] by (simp_all add: keeps_def w1_def putConsumer_def putM_run)
  obtain r s1 where run: "connChannel L (connection (conn w)) (wio w) = (r, s1)" by fastforce
  have run1: "connChannel L (connection (conn w)) (wio w1) = (r, s1)" by (simp add: run w1(3))
  have fail: "own_rel w (w1\<lparr>wio := s1\<rparr>)" using w1(1) own_connChannelD [OF run1] by (rule own_rel.trans)
  have rest: "keeps own_rel (consumeOn L c entry ch)" for c ch
    unfolding consumeOn_def chConsume_def Let_def updConsumer_def
    by (intro own_rel.keeps_bind own_rel.keeps_wrap own_onChannel(1) own_world keeps_useLogger own_rel.refl) simp_all
  have "own_rel w (snd (startConsumer L entry w))" if log: "logger (conn w) \<noteq> None"
  proof (cases r)
    case (Ok ch)
    let ?k = "(core s1)\<lparr>consumerChannels := consumerChannels (core s1) @ [ch]\<rparr>"
    have "own_rel w1 (w1\<lparr>wio := s1\<lparr>core := ?k\<rparr>\<rparr>)"
    proof (rule own_open_assign [where new = "OwnConsumer (length (consumerChannels (core s1)))"])
      show "connChannel L (connection (conn w)) (wio w1) = (Ok ch, s1)" using run1 Ok by simp
      show "owns (w1\<lparr>wio := s1\<rparr>) o' n \<or> (o' = OwnConsumer (length (consumerChannels (core s1))) \<and> ch = AmqpChannel n)"
        if "owns (w1\<lparr>wio := s1\<lparr>core := ?k\<rparr>\<rparr>) o' n" for o' n
        using that by (cases o') (auto simp: nth_append less_Suc_eq)
    qed
    moreover have "own_rel (w1\<lparr>wio := s1\<lparr>core := ?k\<rparr>\<rparr>) (snd (consumeOn L (conn w) entry ch (w1\<lparr>wio := s1\<lparr>core := ?k\<rparr>\<rparr>)))"
      by (rule keeps_snd [OF rest])
    ultimately have "own_rel w (snd (consumeOn L (conn w) entry ch (w1\<lparr>wio := s1\<lparr>core := ?k\<rparr>\<rparr>)))"
      using w1(1) own_rel.trans by blast
    then show ?thesis by (simp add: startConsumer_run [OF log run w1_def] Ok)
  qed (use fail in \<open>simp_all add: startConsumer_run [OF log run w1_def]\<close>)
  then show "own_rel w (snd (startConsumer L entry w))"
    by (cases "logger (conn w) = None") (simp_all add: startConsumer_nil own_rel.refl)
qed

lemma own_startConsumers: "keeps own_rel (startConsumers L)"
proof (rule keepsI)
  fix w :: world
  have "keeps own_rel (forM (startConsumer L) es)" for es
    by (rule own_rel.keeps_forM) (rule own_startConsumer)
  then show "own_rel w (snd (startConsumers L w))"
    by (simp add: startConsumers_def keeps_def own_rel.refl split: option.split)
qed

lemma own_notifyClose: "keeps own_rel notifyConnectionClose"
proof -
  have fwd: "keeps own_rel (liftW (putM (\<lambda>s. s\<lparr>forwarders := forwarders s @ [f]\<rparr>)))" for f
    by (rule own_liftW) (simp_all add: putM_run)
  have call: "keeps own_rel (liftW (recordCall c))" for c
    by (rule own_liftW) (simp_all add: recordCall_run)
  have "keeps own_rel (case (cl, cn) of
       (Some l, Some (AmqpConn pf cl)) \<Rightarrow> thenM (liftW (recordCall NotifyConnectionClose))
           (liftW (putM (\<lambda>s. s\<lparr>forwarders := forwarders s @ [FwdConnection]\<rparr>)))
     | _ \<Rightarrow> returnM ())" for cl :: "nat option" and cn :: "amqpConnection option"
    by (auto split: option.split amqpConnection.split intro!: own_rel.keeps_return own_rel.keeps_bind call fwd)
  then show ?thesis unfolding notifyConnectionClose_def by (intro own_rel.keeps_bind own_rel.keeps_get) simp
qed

lemma own_setups: "list_all (well_behaved L) setups \<Longrightarrow> keeps own_rel (runSetups setups)"
  using keeps_runSetups(1) [of L setups] by (auto simp: keeps_def intro: setup_effect_own)

lemma own_startUp:
  assumes "list_all (well_behaved L) opts"
  shows "keeps own_rel (startUp L opts)"
proof -
  have response: "keeps own_rel (channelInto L (\<lambda>ch c. c\<lparr>responseChannel := ch\<rparr>) (returnM ()) what)" for what
  proof (rule own_channelInto [where new = OwnResponse])
    show "owns v o' n \<or> (o' = OwnResponse \<and> ch = Some (AmqpChannel n))"
      if "owns (v\<lparr>wio := (wio v)\<lparr>core := (conn v)\<lparr>responseChannel := ch\<rparr>\<rparr>\<rparr>) o' n" for v ch o' n
      using that by (cases o') auto
  qed (rule own_rel.keeps_return)
  have "keeps own_rel (channelInto L (\<lambda>ch c. c\<lparr>setupChannel := ch\<rparr>)
      (bindM (getM conn) (\<lambda>c. thenM (liftW (tryM (chClose L (responseChannel c)))) (returnM ()))) what)" for what
  proof (rule own_channelInto [where new = OwnSetup])
    show "owns v o' n \<or> (o' = OwnSetup \<and> ch = Some (AmqpChannel n))"
      if "owns (v\<lparr>wio := (wio v)\<lparr>core := (conn v)\<lparr>setupChannel := ch\<rparr>\<rparr>\<rparr>) o' n" for v ch o' n
      using that by (cases o') auto
    show "keeps own_rel (bindM (getM conn) (\<lambda>c. thenM (liftW (tryM (chClose L (responseChannel c)))) (returnM ())))"
      unfolding chClose_def by (intro own_rel.keeps_bind own_rel.keeps_get own_rel.keeps_return own_onChannel(2))
  qed
  with response show ?thesis
    unfolding startUp_def chClose_def
    by (intro own_rel.keeps_bind own_rel.keeps_get own_rel.keeps_wrap own_onChannel(1) own_setups [OF assms]
        own_notifyClose own_startConsumers keeps_useLogger own_rel.refl)
qed

lemma own_Start:
  assumes "list_all (well_behaved L) opts"
  shows "keeps own_rel (Start L opts)"
proof (rule keepsI)
  fix w :: world
  have "keeps own_rel (thenM (onCore ensureLogger) (putM (\<lambda>w. w\<lparr>registry := Some (case registry w of None \<Rightarrow> newQueueConsumers | Some qcs \<Rightarrow> qcs)\<rparr>)))"
    by (intro own_rel.keeps_bind own_onCore own_world) simp_all
  from keeps_snd [OF this, of w] have reg: "own_rel w (prepareStart w)"
    by (simp add: bindM_run onCore_run putM_run prepareStart_def)
  have dial: "keeps own_rel (connectToAmqpURL L)"
    unfolding connectToAmqpURL_def
    by (intro own_rel.keeps_bind own_rel.keeps_get own_liftW own_onCore) (auto simp: invoke_run split: option.split)
  have "keeps own_rel (thenM (thenM (if b then connectToAmqpURL L else returnM ()) (startUp L opts))
      (thenM (onCore (\<lambda>c. c\<lparr>started := True\<rparr>)) useLogger))" for b
    by (intro own_rel.keeps_bind own_startUp [OF assms] own_onCore keeps_useLogger own_rel.refl) (simp_all add: dial own_rel.keeps_return)
  then have "own_rel w (snd (thenM (thenM (if b then connectToAmqpURL L else returnM ()) (startUp L opts))
      (thenM (onCore (\<lambda>c. c\<lparr>started := True\<rparr>)) useLogger) (prepareStart w)))" for b
    using own_rel.trans [OF reg] by (simp add: keeps_def)
  then show "own_rel w (snd (Start L opts w))"
    unfolding Start_run by (simp add: own_rel.refl)
qed


subsection \<open>Publishing and closing\<close>

text \<open>Publishing touches neither the connection, nor the publishers, nor the numbering of channels.\<close>

definition quiet :: "io \<Rightarrow> io \<Rightarrow> bool" where
  "quiet s t \<longleftrightarrow> nextChan t = nextChan s \<and> pubs t = pubs s \<and> core t = core s"

interpretation quiet: effect_rel quiet
  by unfold_locales (simp_all add: quiet_def)

lemma quiet_prims [keeps_rules]:
  "keeps quiet (invoke L call)" "keeps quiet (uuidNew L)" "keeps quiet (timeNow L)"
  "keeps quiet (startSpan tr c name kind attrs)" "keeps quiet (spanDo ev)" "keeps quiet (spanFailed L sp e)"
  "keeps quiet (onMetrics f)"
  by (auto simp: keeps_def quiet_def run_simps split: option.split)

lemma quiet_deferEnd [keeps_rules]: "keeps quiet m \<Longrightarrow> keeps quiet (deferEnd sp m)"
  by (auto simp: keeps_def quiet_def deferEnd_run split: prod.split) (metis snd_conv)+

lemma quiet_onChannel [keeps_rules]: "keeps quiet (onChannel ch (\<lambda>n. invoke L (call n)))"
  by (auto simp: onChannel_def quiet_prims quiet.keeps_panic quiet.keeps_return split: option.split amqpChannel.split)

lemma quiet_publishMessage [keeps_rules]:
  "keeps quiet (publishMessage L c tr prop nameFn ch marshal msg rk ex src headers)"
  unfolding publishMessage_def Let_def chPublishWithContext_def
  by (intro keeps_rules)

lemma quiet_waitConfirm [keeps_rules]: "keeps quiet (waitConfirm L c q nacked cancelled)"
proof -
  have "keeps quiet (selectConfirm L c i)" for i
    by (auto simp: keeps_def quiet_def selectConfirm_def Let_def split: list.split option.split)
  moreover have "keeps quiet (case r of Inr confirm \<Rightarrow> if \<not> Ack confirm then failM e else returnM () | Inl x \<Rightarrow> failM (f x))"
    for r :: "string + confirmation" and e :: goerr and f :: "string \<Rightarrow> goerr"
    by (intro quiet.keeps_case_sum quiet.keeps_if quiet.keeps_fail quiet.keeps_return)
  ultimately show ?thesis
    unfolding waitConfirm_def
    by (intro quiet.keeps_case_option quiet.keeps_bind quiet.keeps_return) auto
qed

lemma quiet_Publish: "keeps quiet (Publish L c p rk marshal msg hs)"
  unfolding Publish_def
  by (intro quiet.keeps_bind quiet.keeps_get quiet.keeps_case_sum quiet.keeps_fail quiet_publishMessage quiet_waitConfirm)

lemma quiet_PublishRaw: "keeps quiet (PublishRaw L c p rk payload hs)"
  unfolding PublishRaw_def chPublishWithContext_def
  by (intro quiet.keeps_bind quiet.keeps_get quiet.keeps_if quiet.keeps_fail quiet.keeps_wrap quiet_onChannel quiet_waitConfirm)

lemma quiet_PublishServiceResponse: "keeps quiet (PublishServiceResponse L c target rk marshal msg)"
  unfolding PublishServiceResponse_def by (intro quiet.keeps_bind quiet.keeps_get quiet_publishMessage)

lemma own_quiet: "quiet (wio w) s \<Longrightarrow> own_rel w (w\<lparr>wio := s\<rparr>)"
proof (rule own_same)
  show "owns w o' n" if "quiet (wio w) s" "owns (w\<lparr>wio := s\<rparr>) o' n" for o' n
    using that by (cases o') (simp_all add: quiet_def)
qed (simp add: quiet_def)

lemma own_closeAll: "keeps own_rel (closeAll L chs)"
  by (induction chs) (auto simp: chClose_def intro!: own_rel.keeps_bind own_onChannel(2) own_rel.keeps_return)

lemma own_Close: "keeps own_rel (Close L)"
proof -
  have "keeps own_rel (liftW (tryM (connClose L cn)))" for cn
    by (rule own_liftW) (auto simp: connClose_def run_simps split: option.split amqpConnection.split)
  then show ?thesis
    unfolding Close_def
    by (intro own_rel.keeps_bind own_rel.keeps_get own_rel.keeps_if own_rel.keeps_return own_onCore own_closeAll
        own_rel.keeps_case_option own_rel.keeps_fail) simp_all
qed


subsection \<open>The life of a connection\<close>

text \<open>
  The steps of a program on one connection: starting with setup functions of the library,
  closing, and publishing through any publisher, the outbox adapter or the connection itself, with
  any result. A body is what \<open>json.Marshal\<close> gives.
\<close>

inductive conn_step :: "lib \<Rightarrow> world \<Rightarrow> world \<Rightarrow> bool" for L :: lib where
  start: "list_all (well_behaved L) opts \<Longrightarrow> Start L opts w = (r, w') \<Longrightarrow> conn_step L w w'"
| close: "Close L w = (r, w') \<Longrightarrow> conn_step L w w'"
| publish: "Publish L c p rk (\<lambda>body. body) body hs (wio w) = (r, s) \<Longrightarrow> conn_step L w (w\<lparr>wio := s\<rparr>)"
| raw: "PublishRaw L c p rk payload headers (wio w) = (r, s) \<Longrightarrow> conn_step L w (w\<lparr>wio := s\<rparr>)"
| respond: "PublishServiceResponse L c target rk (\<lambda>body. body) body (wio w) = (r, s) \<Longrightarrow> conn_step L w (w\<lparr>wio := s\<rparr>)"

inductive reachable :: "lib \<Rightarrow> world \<Rightarrow> world \<Rightarrow> bool" for L :: lib and w0 :: world where
  init: "reachable L w0 w0"
| step: "reachable L w0 w \<Longrightarrow> conn_step L w w' \<Longrightarrow> reachable L w0 w'"

inductive_cases conn_stepE: "conn_step L w w'"

lemma conn_step_own: "conn_step L w w' \<Longrightarrow> own_rel w w'"
proof (induction rule: conn_step.induct)
  case (start opts w r w')
  then show ?case using keepsD [OF own_Start] by blast
next
  case (close w r w')
  then show ?case by (rule keepsD [OF own_Close])
next
  case (publish c p rk body hs w r s)
  then show ?case by (intro own_quiet keepsD [OF quiet_Publish])
next
  case (raw c p rk payload headers w r s)
  then show ?case by (intro own_quiet keepsD [OF quiet_PublishRaw])
next
  case (respond c target rk body w r s)
  then show ?case by (intro own_quiet keepsD [OF quiet_PublishServiceResponse])
qed

text \<open>
  C24: no AMQP channel is shared. In every state reachable from a new connection by
  starting (any number of times, successfully or not, with any setup functions of the library),
  closing and publishing, every channel in use has been opened and has one owner: the response
  channel, the setup channel, one publisher, or one consumer.
\<close>

theorem channels_never_shared:
  assumes "reachable L (newWorld svc url s) w"
    and "\<forall>p n. channel (pubs s p) \<noteq> Some (AmqpChannel n)"
  shows "\<forall>o' n. owns w o' n \<longrightarrow> n < nextChan (wio w) \<and> (\<forall>o''. owns w o'' n \<longrightarrow> o'' = o')"
proof -
  have "\<not> owns (newWorld svc url s) o' n" for o' n
    using assms(2) by (cases o') (simp_all add: newConnection_def)
  then have init: "channels_ok (newWorld svc url s)" by (simp add: channels_ok_def)
  from assms(1) have "channels_ok w"
    by (induction rule: reachable.induct) (use init conn_step_own in \<open>auto simp: own_rel_def\<close>)
  then show ?thesis unfolding channels_ok_def by blast
qed

definition freshIO :: io where
  "freshIO = demoIO\<lparr>pubs := (\<lambda>_. zeroPublisher), nextChan := 0\<rparr>"

theorem channels_never_shared_witness:
  "\<not> (owns (snd (Start demoLib [EventStreamPublisher demoLib 0, ServicePublisher demoLib ''b'' 1]
        (newWorld ''svc'' ''amqp://h'' freshIO))) (OwnPublisher 0) 2
     \<and> owns (snd (Start demoLib [EventStreamPublisher demoLib 0, ServicePublisher demoLib ''b'' 1]
        (newWorld ''svc'' ''amqp://h'' freshIO))) (OwnPublisher 1) 2)"
proof -
  let ?init = "newWorld ''svc'' ''amqp://h'' freshIO"
  let ?w = "snd (Start demoLib [EventStreamPublisher demoLib 0, ServicePublisher demoLib ''b'' 1] ?init)"
  have "conn_step demoLib ?init ?w"
    by (rule conn_step.start [where opts = "[EventStreamPublisher demoLib 0, ServicePublisher demoLib ''b'' 1]",
          OF _ surjective_pairing]) simp
  then have reach: "reachable demoLib ?init ?w" by (rule reachable.step [OF reachable.init])
  have "\<forall>p n. channel (pubs freshIO p) \<noteq> Some (AmqpChannel n)" by (simp add: freshIO_def zeroPublisher_def)
  from channels_never_shared [OF reach this] show ?thesis by (metis owner.inject(1) zero_neq_one)
qed

end
