(* ===== verification/Running.thy ===== *)
theory Running
  imports Start_Close
begin

text \<open>
  The connection after \<open>Start\<close>: after a successful start every queue of the registry has its
  running consumer on a channel of its own; after a failed one the connection stays open and
  \<open>Close\<close> does nothing. \<open>Close\<close> on a started connection closes the consumers' channels and the
  connection and reports all errors.
\<close>

subsection \<open>Close\<close>

fun closeCalls :: "amqpChannel list \<Rightarrow> amqpCall list" where
  "closeCalls [] = []"
| "closeCalls (AmqpChannel n # chs) = CloseChannel n # closeCalls chs"
| "closeCalls (NoopChannel # chs) = closeCalls chs"

text \<open>The errors of a sequence of calls, the first made after the calls \<open>h\<close>.\<close>

fun callErrors :: "lib \<Rightarrow> amqpCall list \<Rightarrow> amqpCall list \<Rightarrow> goerr list" where
  "callErrors L h [] = []"
| "callErrors L h (c # cs) =
     (case amqpErr L h c of None \<Rightarrow> [] | Some e \<Rightarrow> [ErrText e]) @ callErrors L (h @ [c]) cs"

lemma callErrors_append: "callErrors L h (cs @ cs') = callErrors L h cs @ callErrors L (h @ cs) cs'"
  by (induction cs arbitrary: h) simp_all

definition withCalls :: "world \<Rightarrow> amqpCall list \<Rightarrow> world" where
  "withCalls w cs = w\<lparr>wio := (wio w)\<lparr>calls := calls (wio w) @ cs\<rparr>\<rparr>"

lemma withCalls_simps [simp]:
  "calls (wio (withCalls w cs)) = calls (wio w) @ cs" "conn (withCalls w cs) = conn w"
  "withCalls (withCalls w cs) cs' = withCalls w (cs @ cs')" "withCalls w [] = w"
  "registry (withCalls w cs) = registry w" "loops (withCalls w cs) = loops w"
  by (simp_all add: withCalls_def)

lemma closeAll_run:
  "closeAll L chs w = (Ok (callErrors L (calls (wio w)) (closeCalls chs)), withCalls w (closeCalls chs))"
proof (induction chs arbitrary: w)
  case (Cons ch chs)
  show ?case
  proof (cases ch)
    case NoopChannel
    then show ?thesis by (simp add: bindM_run liftW_run tryM_run channel_op_defs returnM_run Cons.IH)
  next
    case (AmqpChannel n)
    have "liftW (tryM (chClose L (Some ch))) w =
        (Ok (map_option ErrText (amqpErr L (calls (wio w)) (CloseChannel n))), withCalls w [CloseChannel n])"
      by (simp add: AmqpChannel liftW_run tryM_run channel_op_defs invoke_run withCalls_def split: option.split)
    then show ?thesis
      by (simp add: AmqpChannel bindM_run Cons.IH returnM_run split: option.split)
  qed
qed (simp add: returnM_run)

fun closeConnCalls :: "amqpConnection option \<Rightarrow> amqpCall list" where
  "closeConnCalls (Some (AmqpConn a cl)) = [CloseConnection]"
| "closeConnCalls cn = []"

lemma connClose_run:
  "cn \<noteq> None \<Longrightarrow> liftW (tryM (connClose L cn)) w =
    (Ok (case callErrors L (calls (wio w)) (closeConnCalls cn) of [] \<Rightarrow> None | e # es \<Rightarrow> Some e), withCalls w (closeConnCalls cn))"
  by (cases cn rule: closeConnCalls.cases)
    (auto simp: connClose_def liftW_run tryM_run invoke_run returnM_run withCalls_def split: option.split)

lemma callErrors_conn:
  "(case (case callErrors L h (closeConnCalls cn) of [] \<Rightarrow> None | e # es \<Rightarrow> Some e) of None \<Rightarrow> [] | Some e \<Rightarrow> [e]) =
     callErrors L h (closeConnCalls cn)"
  by (cases cn rule: closeConnCalls.cases) (auto split: option.split)

lemma Close_run:
  assumes "started (conn w)" and "connection (conn w) \<noteq> None"
    and "cs = closeCalls (consumerChannels (conn w)) @ closeConnCalls (connection (conn w))"
  shows "Close L w = (case callErrors L (calls (wio w)) cs of [] \<Rightarrow> Ok () | e # es \<Rightarrow> Err (ErrJoin (e # es)),
    withCalls (w\<lparr>wio := (wio w)\<lparr>core := (conn w)\<lparr>started := False\<rparr>\<rparr>\<rparr>) cs)"
proof -
  let ?w1 = "w\<lparr>wio := (wio w)\<lparr>core := (conn w)\<lparr>started := False\<rparr>\<rparr>\<rparr>" and ?errs = "callErrors L (calls (wio w)) cs"
  have "Close L w = (case errors_Join ?errs of None \<Rightarrow> returnM () | Some e \<Rightarrow> failM e) (withCalls ?w1 cs)"
    using assms
    by (simp add: Close_def bindM_Ok [OF getM_run] bindM_Ok [OF onCore_run] bindM_Ok [OF closeAll_run] bindM_Ok [OF connClose_run]
        callErrors_append callErrors_conn)
  then show ?thesis by (simp add: errors_Join_def returnM_run failM_run split: list.split)
qed

text \<open>
  C26: closing. On a started connection \<open>Close\<close> closes the channel of every consumer and then the
  connection, also when some of these calls fail; it returns nil exactly when none failed and
  otherwise all their errors joined in order; the connection is no longer started, and a
  second \<open>Close\<close> does nothing.
\<close>

theorem Close_closes_all:
  assumes "started (conn w)" and "connection (conn w) \<noteq> None" and "Close L w = (r, t)"
  shows "calls (wio t) = calls (wio w) @ closeCalls (consumerChannels (conn w)) @ closeConnCalls (connection (conn w))
    \<and> r = (case callErrors L (calls (wio w)) (closeCalls (consumerChannels (conn w)) @ closeConnCalls (connection (conn w))) of
        [] \<Rightarrow> Ok () | e # es \<Rightarrow> Err (ErrJoin (e # es)))
    \<and> \<not> started (conn t) \<and> Close L t = (Ok (), t)"
proof -
  note run = Close_run [OF assms(1,2) refl, of L]
  with assms(3) have "\<not> started (conn t)" by auto
  moreover from this have "Close L t = (Ok (), t)" by (simp add: Close_def bindM_run getM_run returnM_run)
  ultimately show ?thesis using run assms(3) by auto
qed

definition startedWorld :: world where
  "startedWorld = \<lparr>wio = demoIO\<lparr>core := demoCore\<lparr>started := True, connection := Some (AmqpConn 20 None),
     consumerChannels := [AmqpChannel 2]\<rparr>\<rparr>, registry = Some newQueueConsumers, loops = []\<rparr>"

theorem Close_closes_all_witness:
  "calls (wio (snd (Close demoLib startedWorld))) = [CloseChannel 2, CloseConnection]"
  using Close_closes_all [OF _ _ surjective_pairing, of startedWorld demoLib]
  by (simp add: startedWorld_def)


subsection \<open>A start that fails\<close>

lemma connect_started: "snd (connectToAmqpURL L w) = w' \<Longrightarrow> started (conn w') = started (conn w)"
  by (cases "amqpErr L (calls (wio w)) (Dial (amqpUri (conn w)) (amqpConfig L (serviceName (conn w))))")
    (auto simp: connectToAmqpURL_def run_simps)


text \<open>A broker that opens only one channel.\<close>

definition refusingLib :: lib where
  "refusingLib = demoLib\<lparr>amqpErr := (\<lambda>h c. if c = OpenChannel 1 then Some ''refused'' else None)\<rparr>"




subsection \<open>A start that succeeds\<close>

text \<open>A consumer as its loop runs it.\<close>

definition runningConsumer :: "lib \<Rightarrow> connCore \<Rightarrow> queueConsumer \<Rightarrow> queueConsumer" where
  "runningConsumer L c qc =
     (configureConsumer L c qc)\<lparr>qcNotificationCh := notificationCh c, qcErrorCh := errorCh c\<rparr>"

lemma runningConsumer_cong:
  "c\<lparr>consumerChannels := []\<rparr> = c'\<lparr>consumerChannels := []\<rparr> \<Longrightarrow> runningConsumer L c = runningConsumer L c'"
  by (cases c; cases c') (simp add: runningConsumer_def configureConsumer_def connTracer_def fun_eq_iff)

lemma runningConsumer_simps:
  "queue (runningConsumer L c qc) = queue qc" "handlers (runningConsumer L c qc) = handlers qc"
  "qcServiceName (runningConsumer L c qc) = serviceName c" "qcLegacySupport (runningConsumer L c qc) = legacySupport c"
  "qcPropagator (runningConsumer L c qc) = connPropagator c"
  "qcLogger (runningConsumer L c qc) = map_option (logWith ''queue'' (queue qc)) (logger c)"
  "qcSpanNameFn (runningConsumer L c qc) = (case spanNameFn c of None \<Rightarrow> qcSpanNameFn qc | Some f \<Rightarrow> Some f)"
  "qcNotificationCh (runningConsumer L c qc) = notificationCh c" "qcErrorCh (runningConsumer L c qc) = errorCh c"
  by (simp_all add: runningConsumer_def configureConsumer_def Let_def split: option.split)

definition putEntry :: "string \<Rightarrow> queueConsumer \<Rightarrow> queueConsumers option \<Rightarrow> queueConsumers option" where
  "putEntry q qc r = map_option (\<lambda>qcs. qcs\<lparr>consumers := AList.map_entry q (\<lambda>_. qc) (consumers qcs)\<rparr>) r"

lemma map_entry_const: "AList.map_entry k (\<lambda>_. b) (AList.map_entry k (\<lambda>_. a) xs) = AList.map_entry k (\<lambda>_. b) xs"
  by (induction xs) auto

lemma putEntry_twice: "putEntry q b (putEntry q a r) = putEntry q b r"
  by (cases r) (simp_all add: putEntry_def map_entry_const)

lemma consumeOn_Ok:
  assumes "consumeOn L c (q, qc) ch v = (Ok (), w')"
  shows "loops w' = loops v @ [(ch, q)]" "conn w' = conn v"
    "registry w' = putEntry q (runningConsumer L c qc) (registry v)"
  using assms
  by (cases ch; auto simp: consumeOn_def Let_def updConsumer_def putEntry_def runningConsumer_def bindM_Ok_iff putM_run
      wrapM_Ok_iff liftW_run channel_op_defs returnM_run invoke_run split: option.splits)+

lemma startConsumer_Ok:
  assumes "startConsumer L (q, qc) w = (Ok (), w')"
  shows "\<exists>ch. loops w' = loops w @ [(ch, q)] \<and> consumerChannels (conn w') = consumerChannels (conn w) @ [ch]
    \<and> (conn w')\<lparr>consumerChannels := []\<rparr> = (conn w)\<lparr>consumerChannels := []\<rparr>
    \<and> registry w' = putEntry q (runningConsumer L (conn w) qc) (registry w)"
proof -
  obtain r s1 where run: "connChannel L (connection (conn w)) (wio w) = (r, s1)" by fastforce
  have log: "logger (conn w) \<noteq> None" using assms startConsumer_nil by fastforce
  note started = startConsumer_run [OF log run]
  define w1 where "w1 = putConsumer q (configureConsumer L (conn w) qc) w"
  have reg: "registry w1 = putEntry q (configureConsumer L (conn w) qc) (registry w)" "loops w1 = loops w"
    by (simp_all add: w1_def putConsumer_def putEntry_def)
  have core: "core s1 = core (wio w)" by (rule connChan.frame(2) [OF run])
  obtain ch where r: "r = Ok ch"
    using assms started [of w1 "(q, qc)"] by (cases r) (auto simp: w1_def)
  let ?w2 = "w1\<lparr>wio := s1\<lparr>core := (core s1)\<lparr>consumerChannels := consumerChannels (core s1) @ [ch]\<rparr>\<rparr>\<rparr>"
  have run2: "consumeOn L (conn w) (q, qc) ch ?w2 = (Ok (), w')"
    using assms started [of w1 "(q, qc)"] r by (simp add: w1_def)
  from consumeOn_Ok [OF run2] core show ?thesis
    by (intro exI [of _ ch]) (simp add: reg putEntry_twice)
qed

lemma startEach_Ok:
  "forM (startConsumer L) es w = (Ok (), w') \<Longrightarrow>
   \<exists>chs. length chs = length es \<and> loops w' = loops w @ zip chs (map fst es)
     \<and> consumerChannels (conn w') = consumerChannels (conn w) @ chs
     \<and> (conn w')\<lparr>consumerChannels := []\<rparr> = (conn w)\<lparr>consumerChannels := []\<rparr>
     \<and> registry w' = fold (\<lambda>(q, qc). putEntry q (runningConsumer L (conn w) qc)) es (registry w)"
proof (induction es arbitrary: w)
  case Nil
  then show ?case by (simp add: returnM_run)
next
  case (Cons e es)
  obtain q qc where e: "e = (q, qc)" by fastforce
  from Cons.prems obtain w1 where w1: "startConsumer L (q, qc) w = (Ok (), w1)" and rest: "forM (startConsumer L) es w1 = (Ok (), w')"
    by (auto simp: e bindM_Ok_iff)
  from startConsumer_Ok [OF w1] obtain ch where ch: "loops w1 = loops w @ [(ch, q)]"
    "consumerChannels (conn w1) = consumerChannels (conn w) @ [ch]"
    "(conn w1)\<lparr>consumerChannels := []\<rparr> = (conn w)\<lparr>consumerChannels := []\<rparr>"
    "registry w1 = putEntry q (runningConsumer L (conn w) qc) (registry w)" by blast
  from Cons.IH [OF rest] obtain chs where chs: "length chs = length es" "loops w' = loops w1 @ zip chs (map fst es)"
    "consumerChannels (conn w') = consumerChannels (conn w1) @ chs"
    "(conn w')\<lparr>consumerChannels := []\<rparr> = (conn w1)\<lparr>consumerChannels := []\<rparr>"
    "registry w' = fold (\<lambda>(q, qc). putEntry q (runningConsumer L (conn w1) qc)) es (registry w1)" by blast
  have "runningConsumer L (conn w1) = runningConsumer L (conn w)" by (rule runningConsumer_cong [OF ch(3)])
  with ch chs show ?case by (intro exI [of _ "ch # chs"]) (simp add: e)
qed

lemma map_entry_map:
  "distinct (map fst xs) \<Longrightarrow> AList.map_entry k (\<lambda>_. b) xs = map (\<lambda>(q, a). (q, if q = k then b else a)) xs"
  by (induction xs) (force intro!: map_idI [symmetric])+

lemma fold_putEntry:
  assumes "distinct (map fst ys)"
  shows "distinct (map fst es) \<Longrightarrow>
    fold (\<lambda>(q, qc). putEntry q (f qc)) es (Some (c\<lparr>consumers := ys\<rparr>)) =
    Some (c\<lparr>consumers := map (\<lambda>(q, a). (q, case map_of es q of None \<Rightarrow> a | Some qc \<Rightarrow> f qc)) ys\<rparr>)"
  using assms
proof (induction es arbitrary: ys)
  case Nil
  then show ?case by (simp add: case_prod_unfold)
next
  case (Cons e es)
  obtain k qc where e: "e = (k, qc)" by fastforce
  let ?ys = "map (\<lambda>(q, a). (q, if q = k then f qc else a)) ys"
  have "map fst ?ys = map fst ys" by (simp add: case_prod_unfold)
  then have "distinct (map fst ?ys)" using Cons.prems(2) by (simp only:)
  moreover have "map_of es k = None" using Cons.prems(1) by (simp add: e map_of_eq_None_iff)
  moreover from this have "map ((\<lambda>(q, a). (q, case map_of es q of None \<Rightarrow> a | Some x \<Rightarrow> f x)) \<circ> (\<lambda>(q, a). (q, if q = k then f qc else a))) ys =
      map (\<lambda>(q, a). (q, case if q = k then Some qc else map_of es q of None \<Rightarrow> a | Some x \<Rightarrow> f x)) ys"
    by (auto split: option.split)
  ultimately show ?case
    using Cons.IH [of ?ys] Cons.prems by (simp add: e putEntry_def map_entry_map)
qed

lemma startConsumers_Ok:
  assumes "startConsumers L w = (Ok (), w')" and "registry w = Some qcs" and "gomap_ok (consumers qcs)"
  shows "\<exists>chs. length chs = length (consumers qcs) \<and> loops w' = loops w @ zip chs (gokeys (consumers qcs))
     \<and> consumerChannels (conn w') = consumerChannels (conn w) @ chs
     \<and> (conn w')\<lparr>consumerChannels := []\<rparr> = (conn w)\<lparr>consumerChannels := []\<rparr>
     \<and> registry w' = Some (qcs\<lparr>consumers := map (\<lambda>(q, qc). (q, runningConsumer L (conn w) qc)) (consumers qcs)\<rparr>)"
proof -
  from assms have "forM (startConsumer L) (consumers qcs) w = (Ok (), w')" by (simp add: startConsumers_def)
  from startEach_Ok [OF this] obtain chs where chs: "length chs = length (consumers qcs)"
    "loops w' = loops w @ zip chs (gokeys (consumers qcs))" "consumerChannels (conn w') = consumerChannels (conn w) @ chs"
    "(conn w')\<lparr>consumerChannels := []\<rparr> = (conn w)\<lparr>consumerChannels := []\<rparr>"
    "registry w' = fold (\<lambda>(q, qc). putEntry q (runningConsumer L (conn w) qc)) (consumers qcs) (registry w)" by blast
  have "registry w' = Some (qcs\<lparr>consumers := map (\<lambda>(q, a). (q, case map_of (consumers qcs) q of None \<Rightarrow> a
      | Some qc \<Rightarrow> runningConsumer L (conn w) qc)) (consumers qcs)\<rparr>)"
    using chs(5) fold_putEntry [of "consumers qcs" "consumers qcs" "runningConsumer L (conn w)" qcs] assms(2,3)
    by (simp add: gomap_ok_def)
  moreover have "map (\<lambda>(q, a). (q, case map_of (consumers qcs) q of None \<Rightarrow> a | Some qc \<Rightarrow> runningConsumer L (conn w) qc)) (consumers qcs)
      = map (\<lambda>(q, qc). (q, runningConsumer L (conn w) qc)) (consumers qcs)"
    using assms(3) by (auto simp: gomap_ok_def)
  ultimately show ?thesis using chs by auto
qed

lemma channelInto_Ok:
  assumes "channelInto L assign cleanup what w = (Ok (), w')"
    and "\<And>ch c. consumerChannels (assign ch c) = consumerChannels c \<and> serviceName (assign ch c) = serviceName c
      \<and> topology (assign ch c) = topology c"
  shows "registry w' = registry w" "loops w' = loops w" "consumerChannels (conn w') = consumerChannels (conn w)"
    "serviceName (conn w') = serviceName (conn w)" "topology (conn w') = topology (conn w)"
    "uuids (wio w') = uuids (wio w)"
proof -
  obtain r s1 where run: "connChannel L (connection (conn w)) (wio w) = (r, s1)" by fastforce
  note frame = connChan.frame(2,5) [OF run]
  show "registry w' = registry w" "loops w' = loops w" "consumerChannels (conn w') = consumerChannels (conn w)"
    "serviceName (conn w') = serviceName (conn w)" "topology (conn w') = topology (conn w)"
    "uuids (wio w') = uuids (wio w)"
    using assms by (cases r; auto simp: channelInto_def liftW_run run onCore_run frame bindM_run failM_run split: prod.splits res.splits)+
qed

lemma notifyClose_frame:
  "registry (snd (notifyConnectionClose w)) = registry w" "loops (snd (notifyConnectionClose w)) = loops w"
  "conn (snd (notifyConnectionClose w)) = conn w"
  by (simp_all add: notifyConnectionClose_def run_simps split: option.splits amqpConnection.splits)

lemma startUp_Ok:
  assumes "startUp L opts w = (Ok (), t)"
  shows "\<exists>w1 w2 w3. registry w1 = registry w \<and> loops w1 = loops w \<and> consumerChannels (conn w1) = consumerChannels (conn w)
    \<and> serviceName (conn w1) = serviceName (conn w) \<and> topology (conn w1) = topology (conn w) \<and> uuids (wio w1) = uuids (wio w)
    \<and> runSetups opts w1 = (Ok (), w2)
    \<and> registry w3 = registry w2 \<and> loops w3 = loops w2 \<and> conn w3 = conn w2 \<and> startConsumers L w3 = (Ok (), t)"
proof -
  from assms obtain a b c d where
    a: "channelInto L (\<lambda>ch c. c\<lparr>responseChannel := ch\<rparr>) (returnM ()) ''failed to create response channel: '' w = (Ok (), a)"
    and b: "channelInto L (\<lambda>ch c. c\<lparr>setupChannel := ch\<rparr>)
           (bindM (getM conn) (\<lambda>c. thenM (liftW (tryM (chClose L (responseChannel c)))) (returnM ())))
           ''failed to create setup channel: '' a = (Ok (), b)"
    and c: "runSetups opts b = (Ok (), c)"
    and d: "liftW (chClose L (setupChannel (conn c))) c = (Ok (), d)"
    and e: "thenM notifyConnectionClose (startConsumers L) d = (Ok (), t)"
    unfolding startUp_def by (fastforce simp: bindM_Ok_iff wrapM_Ok_iff getM_run)
  have d': "registry d = registry c" "loops d = loops c" "conn d = conn c"
    using d by (auto simp: liftW_run chClose_def onChannel_def run_simps split: option.splits amqpChannel.splits)
  from e obtain f where f: "notifyConnectionClose d = (Ok (), f)" "startConsumers L f = (Ok (), t)"
    by (auto simp: bindM_Ok_iff)
  have "registry f = registry d" "loops f = loops d" "conn f = conn d"
    using notifyClose_frame [of d] f(1) by simp_all
  with d' f(2) c channelInto_Ok [OF a] channelInto_Ok [OF b] show ?thesis
    by (intro exI [of _ b] exI [of _ c] exI [of _ f]) simp
qed

definition runningConsumers :: "lib \<Rightarrow> connCore \<Rightarrow> queueConsumers \<Rightarrow> queueConsumers" where
  "runningConsumers L c qcs =
     qcs\<lparr>consumers := map (\<lambda>(q, qc). (q, runningConsumer L c qc)) (consumers qcs)\<rparr>"

lemma runningConsumers_keys: "gokeys (consumers (runningConsumers L c qcs)) = gokeys (consumers qcs)"
  by (simp add: runningConsumers_def case_prod_unfold)

lemma runningConsumers_lookup:
  "map_of (consumers (runningConsumers L c qcs)) q = map_option (runningConsumer L c) (map_of (consumers qcs) q)"
  by (simp add: runningConsumers_def map_of_map)

lemma runningConsumers_ok: "qcs_ok L qcs \<Longrightarrow> qcs_ok L (runningConsumers L' c qcs)"
  unfolding qcs_ok_def gomap_ok_def runningConsumers_keys runningConsumers_lookup
  by (auto simp: runningConsumer_simps)

lemma runningConsumers_named: "named qcs \<Longrightarrow> named (runningConsumers L c qcs)"
  unfolding named_def runningConsumers_lookup
  by (auto simp: runningConsumers_def runningConsumer_def configureConsumer_def Let_def split: option.splits)

lemma Start_Ok_phases:
  assumes "overlap_sound L" and "list_all (well_behaved L) opts"
    and "registry w = None \<or> registry_ok L (registry w)" and "Start L opts w = (Ok (), t)"
  shows "\<exists>c qcs chs. qcs_ok L qcs \<and> named qcs \<and> registry t = Some (runningConsumers L c qcs) \<and> length chs = length (consumers qcs)
    \<and> loops t = loops w @ zip chs (gokeys (consumers qcs)) \<and> consumerChannels (conn t) = consumerChannels (conn w) @ chs
    \<and> serviceName c = serviceName (conn w) \<and> logger c \<noteq> None
    \<and> conn t = c\<lparr>consumerChannels := consumerChannels (conn w) @ chs, started := True\<rparr>"
proof -
  let ?dial = "if connection (conn w) = None then connectToAmqpURL L else returnM ()"
  have ns: "\<not> started (conn w)" using assms(4) by (auto simp: Start_run)
  with assms(4) obtain w0 t0 where dial: "?dial (prepareStart w) = (Ok (), w0)"
    and up: "startUp L opts w0 = (Ok (), t0)" and t: "t = t0\<lparr>wio := (wio t0)\<lparr>core := (conn t0)\<lparr>started := True\<rparr>\<rparr>\<rparr>"
    and log: "logger (conn t0) \<noteq> None"
    by (auto simp: Start_run bindM_Ok_iff onCore_run)
  have w0: "registry w0 = registry (prepareStart w)" "loops w0 = loops w" "consumerChannels (conn w0) = consumerChannels (conn w)"
    "serviceName (conn w0) = serviceName (conn w)"
    using dial by (auto simp: prepareStart_def returnM_run connectToAmqpURL_def bindM_Ok_iff getM_run liftW_run
        onCore_run invoke_run split: if_splits option.splits)
  have ok0: "registry_ok L (registry w0)"
    using assms(3) w0(1) by (auto simp: prepareStart_def registry_ok_def newQueueConsumers_def qcs_ok_def named_def split: option.splits)
  from startUp_Ok [OF up] obtain w1 w2 w3 where
    w1: "registry w1 = registry w0" "loops w1 = loops w0" "consumerChannels (conn w1) = consumerChannels (conn w0)"
      "serviceName (conn w1) = serviceName (conn w0)"
    and setups: "runSetups opts w1 = (Ok (), w2)"
    and w3: "registry w3 = registry w2" "loops w3 = loops w2" "conn w3 = conn w2" "startConsumers L w3 = (Ok (), t0)" by auto
  have eff: "setup_effect L w1 w2" by (rule keepsD [OF keeps_runSetups(1) [OF assms(2)] setups])
  then obtain qcs where qcs: "registry w3 = Some qcs" "qcs_ok L qcs" "named qcs"
    using assms(1) ok0 w1(1) w3(1) by (auto simp: setup_effect_def registry_ok_def)
  have same: "loops w3 = loops w" "consumerChannels (conn w3) = consumerChannels (conn w)" "serviceName (conn w3) = serviceName (conn w)"
    using eff w0 w1 w3 by (simp_all add: setup_effect_def ownCore_def)
  have "gomap_ok (consumers qcs)" using qcs(2) by (simp add: qcs_ok_def)
  from startConsumers_Ok [OF w3(4) qcs(1) this] obtain chs where chs: "length chs = length (consumers qcs)"
    "loops t0 = loops w3 @ zip chs (gokeys (consumers qcs))" "consumerChannels (conn t0) = consumerChannels (conn w3) @ chs"
    "(conn t0)\<lparr>consumerChannels := []\<rparr> = (conn w3)\<lparr>consumerChannels := []\<rparr>"
    "registry t0 = Some (runningConsumers L (conn w3) qcs)" unfolding runningConsumers_def by blast
  have core: "conn t0 = (conn w3)\<lparr>consumerChannels := consumerChannels (conn w) @ chs\<rparr>"
    using chs(3,4) same(2) by (cases "conn t0"; cases "conn w3") simp
  then have "logger (conn w3) \<noteq> None" using log by simp
  with chs qcs(2,3) same t core show ?thesis
    by (intro exI [of _ "conn w3"] exI [of _ qcs] exI [of _ chs]) (simp del: not_None_eq)
qed


text \<open>A start with one consumer, evaluated.\<close>

definition demoSetups :: "setupFn list" where
  "demoSetups = [EventStreamConsumer demoLib ''Order.#'' (anyType :: nat anyval gotype) (\<lambda>_ _. returnM ()) []]"

lemma demoSetups_behave: "list_all (well_behaved demoLib) demoSetups"
  by (simp add: demoSetups_def)

lemma demoStart_Ok: "fst (Start demoLib demoSetups (newWorld ''svc'' ''amqp://h'' freshIO)) = Ok ()"
  by (simp add: Start_run connectToAmqpURL_def startUp_def channelInto_def prepareStart_def newConnection_def
      bindM_run liftW_run getM_run onCore_run connChannel_def amqpConn_channel_run freshIO_def Let_def
      invoke_run tryM_run channel_op_defs returnM_run failM_run putM_run wrapM_run runSetups_def demoSetups_def EventStreamConsumer_def
      StreamConsumer_def packageSetup_def bindConsumer_def newConsumerConfig_def messageHandlerBindQueueToExchange_def
      registerHandler_def queueConsumers_add_def newQueueConsumers_def exchangeDeclare_def queueDeclare_def
      addEndpoint_def notifyConnectionClose_def startConsumers_def startConsumer_def queueConsumer_consume_def updConsumer_def)


end
