(* ===== verification/Topology_Export.thy ===== *)
theory Topology_Export
  imports Running
begin

text \<open>
  \<open>CollectTopology\<close> (\<open>topology_export.go\<close>) against \<open>Start\<close>: running the setup functions of the
  library on the no-op channel reaches no broker and gives the topology a start with
  the same setup functions declares.
\<close>

subsection \<open>What a setup function announces\<close>

definition sameTop :: "world \<Rightarrow> world \<Rightarrow> bool" where
  "sameTop w w' \<longleftrightarrow> topology (conn w') = topology (conn w) \<and> serviceName (conn w') = serviceName (conn w)
     \<and> uuids (wio w') = uuids (wio w)"

interpretation sameTop: effect_rel sameTop
  by unfold_locales (simp_all add: sameTop_def)

lemma sameTop_liftW:
  "(\<And>s. core (snd (m s)) = core s \<and> uuids (snd (m s)) = uuids s) \<Longrightarrow> keeps sameTop (liftW m)"
  by (auto simp: keeps_def sameTop_def liftW_run split: prod.split) (metis snd_conv)+

lemma sameTop_channel_ops [keeps_rules]:
  "keeps sameTop (liftW (exchangeDeclare L ch e k))" "keeps sameTop (liftW (queueDeclare L ch cfg))"
  "keeps sameTop (liftW (chQueueBind L ch q rk e b args))"
  by (rule sameTop_liftW; auto simp: exchangeDeclare_def queueDeclare_def channel_op_defs onChannel_def run_simps
      split: option.split amqpChannel.split)+

lemma sameTop_connChannel [keeps_rules]: "keeps sameTop (liftW (connChannel L cn))"
proof (rule sameTop_liftW)
  fix s
  have "connChannel L cn s = (fst (connChannel L cn s), snd (connChannel L cn s))" by simp
  from connChan.frame(2,5) [OF this]
  show "core (snd (connChannel L cn s)) = core s \<and> uuids (snd (connChannel L cn s)) = uuids s" by simp
qed

lemma Publisher_setup_uuids: "uuids (snd (Publisher_setup L p ch svc exch tr prop nameFn headers s)) = uuids s"
  by (cases ch; cases "validateKeys headers"; cases "noConfirm (pubs s p)"; cases "confirmCh (pubs s p)")
    (auto simp: Publisher_setup_def updPub_def makeConfirmCh_def run_simps channel_op_defs onChannel_def
      split: option.splits amqpChannel.splits)

lemma sameTop_setupPublisher [keeps_rules]: "keeps sameTop (setupPublisher L p ch en hs)"
proof -
  have "keeps sameTop (liftW (Publisher_setup L p (Some ch) svc en tr pr nf hs))" for svc tr pr nf
  proof (rule sameTop_liftW)
    fix s
    have "Publisher_setup L p (Some ch) svc en tr pr nf hs s =
        (fst (Publisher_setup L p (Some ch) svc en tr pr nf hs s), snd (Publisher_setup L p (Some ch) svc en tr pr nf hs s))" by simp
    from Publisher_setup_effect(1) [OF this] Publisher_setup_uuids
    show "core (snd (Publisher_setup L p (Some ch) svc en tr pr nf hs s)) = core s
      \<and> uuids (snd (Publisher_setup L p (Some ch) svc en tr pr nf hs s)) = uuids s" by simp
  qed
  then show ?thesis unfolding setupPublisher_def by (intro sameTop.keeps_bind sameTop.keeps_get)
qed

lemma sameTop_registerHandler [keeps_rules]: "keeps sameTop (registerHandler L q rk h)"
  by (auto simp: keeps_def registerHandler_def sameTop_def split: option.split prod.split)

lemma sameTop_messageHandlerBind [keeps_rules]: "keeps sameTop (messageHandlerBindQueueToExchange L cfg)"
  unfolding messageHandlerBindQueueToExchange_def
  by (intro sameTop.keeps_bind sameTop.keeps_get sameTop_registerHandler sameTop_channel_ops keeps_useLogger sameTop.refl)

text \<open>
  A successful run of the setup function appends endpoints that depend only on the service name
  and the UUIDs drawn so far.
\<close>

definition announcesWith :: "(string \<Rightarrow> nat \<Rightarrow> endpoint list) \<Rightarrow> (nat \<Rightarrow> nat) \<Rightarrow> (world, unit) M \<Rightarrow> bool" where
  "announcesWith g h m \<longleftrightarrow> (\<forall>w w'. m w = (Ok (), w') \<longrightarrow>
     topology (conn w') = (topology (conn w))\<lparr>Endpoints := Endpoints (topology (conn w)) @ g (serviceName (conn w)) (uuids (wio w))\<rparr>
     \<and> serviceName (conn w') = serviceName (conn w) \<and> uuids (wio w') = h (uuids (wio w)))"

definition announces :: "setupFn \<Rightarrow> bool" where
  "announces f \<longleftrightarrow> (\<exists>g h. announcesWith g h (runSetup f))"

lemma announcesI: "announcesWith g h (runSetup f) \<Longrightarrow> announces f"
  unfolding announces_def by blast

lemma announces_endpoint: "announcesWith (\<lambda>_ _. [ep]) id (addEndpoint ep)"
  by (simp add: announcesWith_def addEndpoint_def onCore_run)

lemma announces_then:
  assumes "announcesWith g h m" and "keeps sameTop n"
  shows "announcesWith g h (thenM m n)"
proof -
  have "sameTop v w'" if "n v = (Ok (), w')" for v w' using keepsD [OF assms(2) that] .
  with assms(1) show ?thesis by (fastforce simp: announcesWith_def bindM_Ok_iff sameTop_def)
qed

lemma announces_after:
  assumes "keeps sameTop m" and "\<And>a. announcesWith g h (f a)"
  shows "announcesWith g h (bindM m f)"
proof -
  have "sameTop w v" if "m w = (Ok a, v)" for w v a using keepsD [OF assms(1) that] .
  with assms(2) show ?thesis by (fastforce simp: announcesWith_def bindM_Ok_iff sameTop_def)
qed

lemma announces_getConn:
  assumes "\<And>c. announcesWith (G (serviceName c)) h (f c)"
  shows "announcesWith (\<lambda>svc. G svc svc) h (bindM (getM conn) f)"
  using assms by (simp add: announcesWith_def bindM_run getM_run)

lemma announces_bindConsumer:
  "announcesWith (\<lambda>_ _. case config of Inl e \<Rightarrow> [] | Inr cfg \<Rightarrow> [ep cfg]) id (bindConsumer L config ep)"
proof (cases config)
  case (Inl e)
  then show ?thesis by (simp add: announcesWith_def bindConsumer_def failM_run)
next
  case (Inr cfg)
  then show ?thesis
    by (simp add: bindConsumer_def) (intro announces_after sameTop_messageHandlerBind announces_endpoint)
qed

lemma announces_openPublisher:
  "announcesWith (\<lambda>_ _. [ep]) id (bindM (wrapM x (liftW (connChannel L cn)))
     (\<lambda>ch. thenM (addEndpoint ep) (setupPublisher L p ch en hs)))"
  by (intro announces_after sameTop.keeps_wrap sameTop_connChannel announces_then announces_endpoint sameTop_setupPublisher)

lemma announces_openLogged:
  "announcesWith (\<lambda>_ _. [ep]) id (bindM (wrapM x (liftW (connChannel L cn)))
     (\<lambda>ch. thenM useLogger (thenM (addEndpoint ep) (setupPublisher L p ch en hs))))"
  by (intro announces_after sameTop.keeps_wrap sameTop_connChannel announces_then announces_endpoint sameTop_setupPublisher
      keeps_useLogger sameTop.refl)


subsection \<open>The setup functions of the library\<close>

text \<open>What each of them announces.\<close>

lemma announced_publishers:
  "announcesWith (\<lambda>_ _. [publisherEndpoint (streamPattern exch) (topicExchangeName exch) KindTopic]) id
     (runSetup (StreamPublisher L exch p))"
  "announcesWith (\<lambda>_ _. [publisherEndpoint PatternServiceRequest (serviceRequestExchangeName target) KindDirect]) id
     (runSetup (ServicePublisher L target p))"
  "announcesWith (\<lambda>_ _. [(publisherEndpoint PatternQueuePublish ''(default)'' KindUnset)\<lparr>QueueName := q\<rparr>]) id
     (runSetup (QueuePublisher L p q))"
proof -
  note chan = sameTop_channel_ops(1)
  show "announcesWith (\<lambda>_ _. [publisherEndpoint (streamPattern exch) (topicExchangeName exch) KindTopic]) id
     (runSetup (StreamPublisher L exch p))"
    unfolding StreamPublisher_def packageSetup_def Let_def setupFn.simps
    by (rule announces_getConn, rule announces_after [OF sameTop.keeps_wrap [OF chan] announces_openLogged])
  show "announcesWith (\<lambda>_ _. [publisherEndpoint PatternServiceRequest (serviceRequestExchangeName target) KindDirect]) id
     (runSetup (ServicePublisher L target p))"
    unfolding ServicePublisher_def packageSetup_def Let_def setupFn.simps
    by (rule announces_getConn, rule announces_after [OF chan announces_openLogged])
  show "announcesWith (\<lambda>_ _. [(publisherEndpoint PatternQueuePublish ''(default)'' KindUnset)\<lparr>QueueName := q\<rparr>]) id
     (runSetup (QueuePublisher L p q))"
    unfolding QueuePublisher_def packageSetup_def setupFn.simps by (rule announces_getConn, rule announces_openPublisher)
qed

definition announcedConfig :: "(consumerConfig \<Rightarrow> endpoint) \<Rightarrow> goerr + consumerConfig \<Rightarrow> endpoint list" where
  "announcedConfig ep config = (case config of Inl e \<Rightarrow> [] | Inr cfg \<Rightarrow> [ep cfg])"

lemma announced_consumers:
  "announcesWith (\<lambda>svc _. announcedConfig (consumerEndpoint (streamPattern exch) KindTopic rk (typeName T) False)
      (newConsumerConfig L rk (topicExchangeName exch) (serviceEventQueueName (topicExchangeName exch) svc)
        ExchangeTopic (newWrappedHandler T h) opts)) id
     (runSetup (StreamConsumer L exch rk T h opts))"
  "announcesWith (\<lambda>svc _. announcedConfig (consumerEndpoint PatternServiceResponse KindHeaders rk (typeName T) False)
      (responseConfig L target svc rk (newWrappedHandler T h) opts)) id
     (runSetup (ServiceResponseConsumer L target rk T h opts))"
  "announcesWith (\<lambda>svc _. announcedConfig (consumerEndpoint PatternServiceRequest KindDirect rk (typeName T) False)
      (newConsumerConfig L rk (serviceRequestExchangeName svc) (serviceRequestQueueName svc)
        ExchangeDirect (newWrappedHandler T h) opts)) id
     (runSetup (ServiceRequestConsumer L rk T h opts))"
  unfolding StreamConsumer_def ServiceResponseConsumer_def ServiceRequestConsumer_def packageSetup_def Let_def
    setupFn.simps announcedConfig_def
  by (rule announces_getConn, rule announces_bindConsumer)+
    (rule announces_getConn, rule announces_after [OF sameTop.keeps_wrap [OF sameTop_channel_ops(1)] announces_bindConsumer])

lemma announced_transient:
  "announcesWith (\<lambda>svc n. announcedConfig (consumerEndpoint (streamPattern exch) KindTopic rk (typeName T) True)
      (newConsumerConfig L rk (topicExchangeName exch)
        (serviceEventRandomQueueName (topicExchangeName exch) svc (newUUID L n)) ExchangeTopic (newWrappedHandler T h)
        (opts @ [transientTTL L]))) Suc
     (runSetup (TransientStreamConsumer L exch rk T h opts))"
proof -
  define cfg where "cfg svc n = newConsumerConfig L rk (topicExchangeName exch)
      (serviceEventRandomQueueName (topicExchangeName exch) svc (newUUID L n)) ExchangeTopic (newWrappedHandler T h)
      (opts @ [transientTTL L])" for svc n
  define ep where "ep = consumerEndpoint (streamPattern exch) KindTopic rk (typeName T) True"
  have "announcesWith (\<lambda>svc n. announcedConfig ep (cfg svc n)) Suc (runSetup (TransientStreamConsumer L exch rk T h opts))"
    using announces_bindConsumer [where L = L and ep = ep, unfolded announcesWith_def]
    by (fastforce simp: announcesWith_def announcedConfig_def TransientStreamConsumer_def packageSetup_def Let_def bindM_run getM_run
        liftW_run uuidNew_run simp flip: ep_def cfg_def)
  then show ?thesis by (simp add: ep_def cfg_def)
qed

lemma announces_library [simp]:
  "announces (StreamPublisher L exch p)" "announces (EventStreamPublisher L p)"
  "announces (ServicePublisher L target p)" "announces (QueuePublisher L p q)"
  "announces (StreamConsumer L exch rk T h opts)" "announces (EventStreamConsumer L rk T h opts)"
  "announces (ServiceResponseConsumer L target rk T h opts)" "announces (ServiceRequestConsumer L rk T h opts)"
  "announces (TransientStreamConsumer L exch rk T h opts)" "announces (TransientEventStreamConsumer L rk T h opts)"
  unfolding EventStreamPublisher_def EventStreamConsumer_def TransientEventStreamConsumer_def
  by (rule announcesI, rule announced_publishers announced_consumers announced_transient)+

lemma announces_RequestResponseHandler [simp]: "announces (RequestResponseHandler L rk T marshal rh)"
  unfolding RequestResponseHandler_def packageSetup_def
  by (rule announcesI, unfold setupFn.simps, rule announced_consumers(3))

lemma announces_options [simp]:
  "announces (WithTracing tp)" "announces (WithPrefetchLimit limit)"
  "announces (WithNotificationChannel ch)" "announces (WithErrorChannel ch')"
  "announces (WithPropagator pr)" "announces (WithSpanNameFn f)" "announces (WithPublishSpanNameFn g)"
  "announces WithLegacySupport" "announces (CloseListener l)"
  unfolding WithTracing_def WithPrefetchLimit_def WithNotificationChannel_def WithErrorChannel_def
    WithPropagator_def WithSpanNameFn_def WithPublishSpanNameFn_def WithLegacySupport_def CloseListener_def coreSetup_def
  by (rule announcesI [where g = "\<lambda>_ _. []" and h = id]; simp add: announcesWith_def onCore_run)+

lemma announces_WithLogger [simp]: "announces (WithLogger lg)"
  unfolding WithLogger_def
  by (rule announcesI [where g = "\<lambda>_ _. []" and h = id]) (auto simp: announcesWith_def onCore_run panicM_run split: option.split)


subsection \<open>CollectTopology\<close>

lemma announces_all:
  assumes "list_all announces fs"
  shows "\<exists>g h. announcesWith g h (forM (\<lambda>f. wrapM (what f) (runSetup f)) fs) \<and> announcesWith g h (forM runSetup fs)"
  using assms
proof (induction fs)
  case Nil
  have "announcesWith (\<lambda>_ _. []) id (returnM ())" by (simp add: announcesWith_def returnM_run)
  then show ?case by auto
next
  case (Cons f fs)
  then obtain g h where rest: "announcesWith g h (forM (\<lambda>f. wrapM (what f) (runSetup f)) fs)" "announcesWith g h (forM runSetup fs)"
    by auto
  from Cons.prems obtain g' h' where f: "announcesWith g' h' (runSetup f)" by (auto simp: announces_def)
  have "announcesWith (\<lambda>svc n. g' svc n @ g svc (h' n)) (h \<circ> h') (thenM (wrapM (what f) (runSetup f)) (forM (\<lambda>f. wrapM (what f) (runSetup f)) fs))"
    "announcesWith (\<lambda>svc n. g' svc n @ g svc (h' n)) (h \<circ> h') (thenM (runSetup f) (forM runSetup fs))"
    using f rest by (fastforce simp: announcesWith_def bindM_Ok_iff wrapM_Ok_iff)+
  then show ?case by (auto simp: comp_def)
qed

text \<open>
  C35: collecting a topology is offline. With setup functions of the library, and whatever
  their result, \<open>CollectTopology\<close> makes no call on the AMQP library, opens no channel for a
  publisher, and leaves the caller's own connection as it is.
\<close>

theorem CollectTopology_offline:
  assumes "list_all (well_behaved L) setups" and "CollectTopology svc setups s = (r, t)"
  shows "calls t = calls s \<and> forwarders t = forwarders s \<and> core t = core s \<and> (pubs_ok s \<longrightarrow> pubs_ok t)"
proof -
  obtain r1 w where run: "forM runSetup setups (collectWorld svc s) = (r1, w)" by fastforce
  have "setup_effect L (collectWorld svc s) w" by (rule keepsD [OF keeps_runSetups(2) [OF assms(1)] run])
  then have eff: "io_effect (Some NoopConnection) (Some NoopChannel) (s\<lparr>core := collectCore svc\<rparr>) (wio w)"
    by (simp add: setup_effect_def collectWorld_def collectCore_def)
  have t: "t = (wio w)\<lparr>core := core s\<rparr>"
    using assms(2) run by (auto simp: CollectTopology_def split: res.splits)
  have "calls (wio w) = calls s" using eff by (auto simp: io_effect_def call_effect_def)
  moreover have "forwarders (wio w) = forwarders s"
  proof -
    obtain fs where fs: "forwarders (wio w) = forwarders s @ fs" "list_all (fwdOf (Some NoopConnection)) fs"
      using eff by (auto simp: io_effect_def fwd_effect_def)
    have "\<not> fwdOf (Some NoopConnection) f" for f by (cases f) (simp_all add: listens_def)
    then have "fs = []" using fs(2) by (cases fs) auto
    with fs(1) show ?thesis by simp
  qed
  moreover have "pubs_ok s \<longrightarrow> pubs_ok t"
    using eff by (auto simp: t io_effect_def pub_effect_def pubs_ok_def)
  ultimately show ?thesis by (simp add: t)
qed

theorem CollectTopology_offline_witness:
  "calls (snd (CollectTopology ''svc'' demoSetups demoIO)) = []"
  using CollectTopology_offline [OF demoSetups_behave surjective_pairing, of "''svc''" demoIO] by simp

lemma Start_declares:
  assumes "overlap_sound L" and "list_all (well_behaved L) setups" and g: "announcesWith g h (runSetups setups)"
    and "Start L setups (newWorld svc url s) = (Ok (), t)"
  shows "topology (conn t) = (newTopology svc)\<lparr>Endpoints := g svc (uuids s)\<rparr>"
proof -
  let ?new = "newWorld svc url s"
  obtain a b where dial: "connectToAmqpURL L (prepareStart ?new) = (Ok (), a)" and up: "startUp L setups a = (Ok (), b)"
    and t: "t = b\<lparr>wio := (wio b)\<lparr>core := (conn b)\<lparr>started := True\<rparr>\<rparr>\<rparr>"
    using assms(4) by (auto simp: Start_run bindM_Ok_iff onCore_run newConnection_def)
  have a: "registry a = Some newQueueConsumers" "topology (conn a) = newTopology svc" "serviceName (conn a) = svc"
    "uuids (wio a) = uuids s"
    using dial by (auto simp: connectToAmqpURL_def bindM_Ok_iff getM_run liftW_run onCore_run invoke_run prepareStart_def
        newConnection_def split: option.splits)
  from startUp_Ok [OF up] obtain w1 w2 w3 where
    w1: "registry w1 = registry a" "serviceName (conn w1) = serviceName (conn a)" "topology (conn w1) = topology (conn a)"
      "uuids (wio w1) = uuids (wio a)"
    and run: "runSetups setups w1 = (Ok (), w2)"
    and w3: "registry w3 = registry w2" "conn w3 = conn w2" "startConsumers L w3 = (Ok (), b)" by auto
  have declared: "topology (conn w2) = (newTopology svc)\<lparr>Endpoints := g svc (uuids s)\<rparr>"
    using g [unfolded announcesWith_def, rule_format, OF run] w1 a by (simp add: newTopology_def)
  have "setup_effect L w1 w2" by (rule keepsD [OF keeps_runSetups(1) [OF assms(2)] run])
  then obtain qcs where qcs: "registry w3 = Some qcs" "gomap_ok (consumers qcs)"
    using assms(1) a(1) w1(1) w3(1)
    by (auto simp: setup_effect_def registry_ok_def qcs_ok_def named_def newQueueConsumers_def)
  have "(conn b)\<lparr>consumerChannels := []\<rparr> = (conn w2)\<lparr>consumerChannels := []\<rparr>"
    using startConsumers_Ok [OF w3(3) qcs] w3(2) by auto
  then have "topology (conn b) = topology (conn w2)" by (cases "conn b"; cases "conn w2") simp
  with declared t show ?thesis by simp
qed


lemma demoSetups_announce: "list_all announces demoSetups"
  by (simp add: demoSetups_def)

lemma demoCollect_Ok: "\<exists>tp t. CollectTopology ''svc'' demoSetups freshIO = (Ok tp, t) \<and> length (Endpoints tp) = 1"
  by (simp add: CollectTopology_def collectWorld_def collectCore_def newQueueConsumers_def newTopology_def demoSetups_def
      EventStreamConsumer_def StreamConsumer_def packageSetup_def bindConsumer_def newConsumerConfig_def
      messageHandlerBindQueueToExchange_def registerHandler_def queueConsumers_add_def exchangeDeclare_def queueDeclare_def
      addEndpoint_def bindM_run liftW_run getM_run onCore_run channel_op_defs returnM_run Let_def)


end
