(* ===== verification/Interleaving.thy ===== *)
theory Interleaving
  imports Go_Prelude
begin

text \<open>
  Goroutines that run at the same time: a state of the whole system, and a relation whose steps
  are those of any of them. The locale \<open>guarded_system\<close> is what it takes for an invariant to hold in
  every state the system reaches; \<open>progressing_system\<close> adds what it takes for every run to be finite and
  to end only where all work is done.
\<close>

locale guarded_system =
  fixes step :: "'s \<Rightarrow> 's \<Rightarrow> bool" and inv :: "'s \<Rightarrow> bool"
  assumes step_keeps: "inv s \<Longrightarrow> step s t \<Longrightarrow> inv t"
begin

lemma reach_keeps:
  assumes "step\<^sup>*\<^sup>* s t" and "inv s"
  shows "inv t"
  using assms by (induction rule: rtranclp_induct) (auto intro: step_keeps)

end

locale progressing_system = guarded_system +
  fixes finished :: "'s \<Rightarrow> bool" and work :: "'s \<Rightarrow> nat"
  assumes progress: "inv s \<Longrightarrow> \<not> finished s \<Longrightarrow> \<exists>t. step s t"
    and decreases: "inv s \<Longrightarrow> step s t \<Longrightarrow> work t < work s"
begin

lemma run_bounded:
  assumes "(step ^^ k) s t" and "inv s"
  shows "k + work t \<le> work s"
  using assms
proof (induction k arbitrary: t)
  case (Suc k)
  from Suc.prems(1) obtain u where u: "(step ^^ k) s u" "step u t" by auto
  from u(1) have "inv u" using reach_keeps Suc.prems(2) relpowp_imp_rtranclp by metis
  from decreases [OF this u(2)] Suc.IH [OF u(1) Suc.prems(2)] show ?case by simp
qed simp

lemma run_completes: "inv s \<Longrightarrow> \<exists>t. step\<^sup>*\<^sup>* s t \<and> finished t"
proof (induction "work s" arbitrary: s rule: less_induct)
  case less
  show ?case
  proof (cases "finished s")
    case False
    from progress [OF less.prems this] obtain u where u: "step s u" by blast
    from less.hyps [OF decreases [OF less.prems u] step_keeps [OF less.prems u]]
    obtain t where "step\<^sup>*\<^sup>* u t" "finished t" by blast
    with u show ?thesis by (meson converse_rtranclp_into_rtranclp)
  qed blast
qed

end

end
