(* ===== verification/Consumer_Concurrent.thy ===== *)
theory Consumer_Concurrent
  imports Consumer Interleaving
begin

text \<open>
  The consumer loops of a connection run at the same time, each in its own goroutine and on its own
  delivery channel. Here the handling of a delivery is split where other goroutines can come in
  between: before the handler is called, the handler, and what follows it (\<open>handleDelivery_stages\<close>:
  the pieces are those of \<open>handleDelivery\<close>). New deliveries arrive at any time, and
  the rest of the program may do anything to the shared state but change the consumers' counters.
\<close>

definition afterHandler :: "lib \<Rightarrow> queueConsumer \<Rightarrow> delivery \<Rightarrow> nat \<Rightarrow> int \<Rightarrow> unit res \<Rightarrow> (loopState, unit) M" where
  "afterHandler L c d sp startTime result =
     deferSpanEnd sp (bindM (liftIO (tryM (\<lambda>s. (result, s)))) (\<lambda>err.
       case err of
         Some e \<Rightarrow> thenM (liftIO (spanFailed L sp e))
           (bindM (liftIO (timeNow L)) (\<lambda>now. let elapsed = now - startTime in
            thenM (liftIO (notifyEventHandlerFailed (qcErrorCh c) (deliveredInfo L c d) elapsed e))
              (rejectOrNack d (deliveredInfo L c d) elapsed e)))
       | None \<Rightarrow> bindM (liftIO (timeNow L)) (\<lambda>now. let elapsed = now - startTime in
           thenM (liftIO (spanDo (SpanStatus sp StatusOk)))
           (thenM (liftIO (notifyEventHandlerSucceed (qcNotificationCh c) (deliveredInfo L c d) elapsed))
           (thenM (settle (Acked (Tag d) False))
           (liftIO (onMetrics (eventAck (queue c) (RoutingKey d) elapsed))))))))"

lemma handleDelivery_stages:
  assumes "qcSpanNameFn c = Some nameFn"
    and "h (deliveredCtx L c d (lio s)) (deliveredEvent L c d (lio s)) (handlerReady L c nameFn d (lio s)) = (r, s2)"
  shows "handleDelivery L c h d (getDeliveryInfo (queue c) d) s =
    afterHandler L c d (nextSpan (lio s)) (clock L (ticks (lio s))) r (s\<lparr>lio := s2\<rparr>)"
  unfolding handleDelivery_start [OF assms(1)] afterHandler_def
  using assms(2) by (cases r) (simp_all add: deferSpanEnd_run bindM_run liftIO_run tryM_run)

lemma afterHandler_outcome:
  assumes "afterHandler L c d sp start r s = (x, t)"
  shows "x = loopResult r" and "settled t = settled s @ verdict (Tag d) r"
    and "metricsSt (lio t) = verdictMetrics (deliveredInfo L c d) (clock L (ticks (lio s)) - start) r (metricsSt (lio s))"
proof -
  have info: "Destination (deliveredInfo L c d) = queue c" "Key (deliveredInfo L c d) = RoutingKey d"
    by (simp_all add: deliveredInfo_def)
  show "x = loopResult r" and "settled t = settled s @ verdict (Tag d) r"
    and "metricsSt (lio t) = verdictMetrics (deliveredInfo L c d) (clock L (ticks (lio s)) - start) r (metricsSt (lio s))"
    using assms
    by (cases r; auto simp: afterHandler_def run_simps rejectOrNack_run spanFailed_def notifyEventHandlerFailed_def
        notifyEventHandlerSucceed_def info Let_def split: option.splits)+
qed


subsection \<open>The loops\<close>

text \<open>
  Where a loop is: at the receive of its \<open>range\<close>, about to call a handler in the span with the given
  number and since the given time, after the call, or ended by a panic with a delivery unsettled.
\<close>

datatype stage =
    Idle
  | Ready delivery wrappedHandler ctx unmarshalEvent nat int
  | Returned delivery nat int "unit res"
  | Stopped delivery "unit res"

text \<open>
  The state of all loops, by number: the shared state, what waits on the delivery channel, the stage and the
  settlements sent. The last two fields are a record of what happened: everything that arrived, and each settled delivery
  with the result of its handler (\<open>None\<close> when it had none).
\<close>

record consuming_state =
  sharedIO :: io
  inbox :: "nat \<Rightarrow> delivery list"
  stage :: "nat \<Rightarrow> stage"
  settledBy :: "nat \<Rightarrow> settlement list"
  arrived :: "nat \<Rightarrow> delivery list"
  handled :: "nat \<Rightarrow> (delivery \<times> unit res option) list"

definition loopView :: "consuming_state \<Rightarrow> nat \<Rightarrow> loopState" where
  "loopView s i = \<lparr>lio = sharedIO s, settled = settledBy s i\<rparr>"

definition endRound :: "nat \<Rightarrow> delivery \<Rightarrow> unit res option \<Rightarrow> unit res \<Rightarrow> loopState \<Rightarrow> consuming_state \<Rightarrow> consuming_state" where
  "endRound i d r x t s = s\<lparr>sharedIO := lio t, settledBy := (settledBy s)(i := settled t),
     stage := (stage s)(i := if x = Ok () then Idle else Stopped d x),
     handled := (if x = Ok () then (handled s)(i := handled s i @ [(d, r)]) else handled s)\<rparr>"

inductive loopStep :: "lib \<Rightarrow> (nat \<Rightarrow> queueConsumer) \<Rightarrow> consuming_state \<Rightarrow> consuming_state \<Rightarrow> bool"
  for L cs where
  arrive: "loopStep L cs s (s\<lparr>inbox := (inbox s)(i := inbox s i @ [d]), arrived := (arrived s)(i := arrived s i @ [d])\<rparr>)"
| unhandled: "stage s i = Idle \<Longrightarrow> inbox s i = d # ds \<Longrightarrow> rkh_get L (handlers (cs i)) (RoutingKey d) = None \<Longrightarrow>
    loopBody L (cs i) d (loopView s i) = (x, t) \<Longrightarrow>
    loopStep L cs s (endRound i d None x t (s\<lparr>inbox := (inbox s)(i := ds)\<rparr>))"
| start: "stage s i = Idle \<Longrightarrow> inbox s i = d # ds \<Longrightarrow> rkh_get L (handlers (cs i)) (RoutingKey d) = Some h \<Longrightarrow>
    qcSpanNameFn (cs i) = Some nameFn \<Longrightarrow> u = received (cs i) d (sharedIO s) \<Longrightarrow>
    loopStep L cs s (s\<lparr>inbox := (inbox s)(i := ds), sharedIO := handlerReady L (cs i) nameFn d u,
      stage := (stage s)(i := Ready d h (deliveredCtx L (cs i) d u) (deliveredEvent L (cs i) d u) (nextSpan u) (clock L (ticks u)))\<rparr>)"
| handle: "stage s i = Ready d h c ev sp st \<Longrightarrow> h c ev (sharedIO s) = (r, t) \<Longrightarrow> r \<noteq> Blocked \<Longrightarrow>
    loopStep L cs s (s\<lparr>sharedIO := t, stage := (stage s)(i := Returned d sp st r)\<rparr>)"
| finish: "stage s i = Returned d sp st r \<Longrightarrow> afterHandler L (cs i) d sp st r (loopView s i) = (x, t) \<Longrightarrow>
    loopStep L cs s (endRound i d (Some r) x t s)"
| others: "same_consumer_metrics (sharedIO s) t \<Longrightarrow> loopStep L cs s (s\<lparr>sharedIO := t\<rparr>)"

definition startLoops :: "io \<Rightarrow> consuming_state" where
  "startLoops s = \<lparr>sharedIO = s, inbox = (\<lambda>_. []), stage = (\<lambda>_. Idle), settledBy = (\<lambda>_. []), arrived = (\<lambda>_. []), handled = (\<lambda>_. [])\<rparr>"

text \<open>Without interruption the three steps of a delivery are one round of the loop.\<close>

lemma steps_are_loopBody:
  assumes "stage s i = Idle" "inbox s i = d # ds" "rkh_get L (handlers (cs i)) (RoutingKey d) = Some h"
    "qcSpanNameFn (cs i) = Some nameFn" "loopBody L (cs i) d (loopView s i) = (x, t)" "x \<noteq> Blocked"
  shows "\<exists>r. (loopStep L cs)\<^sup>*\<^sup>* s (endRound i d (Some r) x t (s\<lparr>inbox := (inbox s)(i := ds)\<rparr>))"
proof -
  define u where "u = received (cs i) d (sharedIO s)"
  let ?c = "deliveredCtx L (cs i) d u" and ?ev = "deliveredEvent L (cs i) d u"
  obtain r s2 where h: "h ?c ?ev (handlerReady L (cs i) nameFn d u) = (r, s2)" by fastforce
  have after: "afterHandler L (cs i) d (nextSpan u) (clock L (ticks u)) r \<lparr>lio = s2, settled = settledBy s i\<rparr> = (x, t)"
    using assms(5) handleDelivery_stages [OF assms(4), of h L d "\<lparr>lio = u, settled = settledBy s i\<rparr>"] h
    by (simp add: loopBody_handled [OF assms(3)] loopView_def u_def)
  then have r: "r \<noteq> Blocked" using assms(6) afterHandler_outcome(1) [OF after] by auto
  define s1 where "s1 = s\<lparr>inbox := (inbox s)(i := ds), sharedIO := handlerReady L (cs i) nameFn d u,
      stage := (stage s)(i := Ready d h ?c ?ev (nextSpan u) (clock L (ticks u)))\<rparr>"
  define s3 where "s3 = s1\<lparr>sharedIO := s2, stage := (stage s1)(i := Returned d (nextSpan u) (clock L (ticks u)) r)\<rparr>"
  have a: "loopStep L cs s s1" unfolding s1_def by (rule start [where cs = cs and i = i, OF assms(1-4) u_def])
  have "stage s1 i = Ready d h ?c ?ev (nextSpan u) (clock L (ticks u))" "h ?c ?ev (sharedIO s1) = (r, s2)"
    by (simp_all add: s1_def h)
  then have b: "loopStep L cs s1 s3" unfolding s3_def by (rule handle [OF _ _ r])
  have c: "loopStep L cs s3 (endRound i d (Some r) x t s3)"
    by (rule finish) (use after in \<open>simp_all add: s3_def s1_def loopView_def\<close>)
  have eq: "endRound i d (Some r) x t s3 = endRound i d (Some r) x t (s\<lparr>inbox := (inbox s)(i := ds)\<rparr>)"
    by (simp add: endRound_def s3_def s1_def)
  note first = converse_rtranclp_into_rtranclp [where r = "loopStep L cs"]
  show ?thesis using first [OF a first [OF b first [OF c rtranclp.rtrancl_refl]]] unfolding eq by blast
qed


subsection \<open>Settlements\<close>

fun settlementOf :: "delivery \<times> unit res option \<Rightarrow> settlement" where
  "settlementOf (d, None) = Rejected (Tag d) False"
| "settlementOf (d, Some (Err e)) = errVerdict (Tag d) e"
| "settlementOf (d, Some r) = Acked (Tag d) False"

lemma settlementOf_tag: "settledTag (settlementOf x) = Tag (fst x)" "\<not> multiple (settlementOf x)"
  by (cases x rule: settlementOf.cases; simp add: errVerdict_def)+

fun unsettled :: "stage \<Rightarrow> delivery list" where
  "unsettled Idle = []"
| "unsettled (Ready d h c ev sp st) = [d]"
| "unsettled (Returned d sp st r) = [d]"
| "unsettled (Stopped d x) = [d]"

definition loops_inv :: "consuming_state \<Rightarrow> bool" where
  "loops_inv s \<longleftrightarrow> (\<forall>i. arrived s i = map fst (handled s i) @ unsettled (stage s i) @ inbox s i
     \<and> settledBy s i = map settlementOf (handled s i))"

lemma round_settles:
  assumes "loops_inv s" and "stage s i = Idle \<and> inbox s i = d # ds \<or> unsettled (stage s i) = [d] \<and> inbox s i = ds"
    and "x = Ok () \<and> settled t = settledBy s i @ [settlementOf (d, r)] \<or> x \<noteq> Ok () \<and> settled t = settledBy s i"
  shows "loops_inv (endRound i d r x t (s\<lparr>inbox := (inbox s)(i := ds)\<rparr>))"
  using assms by (auto simp: loops_inv_def endRound_def)

lemma loopStep_settles:
  assumes inv: "loops_inv s" and step: "loopStep L cs s t"
  shows "loops_inv t"
  using step
proof cases
  case (unhandled i d ds x t')
  then show ?thesis
    using round_settles [OF inv, of i d ds x t' None] by (simp add: loopBody_unhandled loopView_def) (metis loopState.select_convs(2))
next
  case (finish i d sp st r x t')
  note out = afterHandler_outcome(1,2) [OF finish(3)]
  have "x = Ok () \<and> settled t' = settledBy s i @ [settlementOf (d, Some r)] \<or> x \<noteq> Ok () \<and> settled t' = settledBy s i"
    using out by (cases r) (auto simp: loopView_def)
  from round_settles [OF inv _ this, of "inbox s i"] finish(1,2) show ?thesis by simp
qed (use inv in \<open>auto simp: loops_inv_def\<close>)

interpretation settling: guarded_system "loopStep L cs" loops_inv for L cs
  by unfold_locales (rule loopStep_settles)

text \<open>
  C2: concurrent consumers settle every delivery once. However many consumer loops run at the same time, and
  however their steps interleave with each other, with handlers still running in other loops,
  with arriving deliveries and with the rest of the program: at any moment what has
  arrived for a loop is, in this order, what it has settled, the at most one delivery it is working on (or whose handler panicked),
  and what still waits; and its settlements are one for each settled delivery, in the order of arrival, each for that
  delivery alone and with the verdict that the result of its own handler demands.
\<close>

theorem interleaved_loops_settle:
  assumes "(loopStep L cs)\<^sup>*\<^sup>* (startLoops s0) s"
  shows "arrived s i = map fst (handled s i) @ unsettled (stage s i) @ inbox s i
    \<and> settledBy s i = map settlementOf (handled s i)
    \<and> map settledTag (settledBy s i) = map Tag (take (length (settledBy s i)) (arrived s i))
    \<and> list_all (\<lambda>a. \<not> multiple a) (settledBy s i)"
proof -
  have "loops_inv (startLoops s0)" by (simp add: loops_inv_def startLoops_def)
  from settling.reach_keeps [OF assms this] have "arrived s i = map fst (handled s i) @ unsettled (stage s i) @ inbox s i"
    "settledBy s i = map settlementOf (handled s i)" by (auto simp: loops_inv_def)
  then show ?thesis by (simp add: settlementOf_tag list_all_iff)
qed

text \<open>Two loops: the second receives and rejects a delivery while the first is inside its handler.\<close>

lemma demo_loops:
  "\<exists>s. (loopStep demoLib (\<lambda>_. demoConsumer))\<^sup>*\<^sup>* (startLoops demoIO) s
     \<and> unsettled (stage s 0) = [demoDelivery 3 ''ok''] \<and> arrived s 1 = [demoDelivery 4 ''x''] \<and> inbox s 1 = [] \<and> stage s 1 = Idle"
proof -
  let ?step = "loopStep demoLib (\<lambda>_. demoConsumer)" and ?a = "demoDelivery 3 ''ok''" and ?b = "demoDelivery 4 ''x''"
  define s0 where "s0 = startLoops demoIO"
  define s1 where "s1 = s0\<lparr>inbox := (inbox s0)(0 := inbox s0 0 @ [?a]), arrived := (arrived s0)(0 := arrived s0 0 @ [?a])\<rparr>"
  define s2 where "s2 = s1\<lparr>inbox := (inbox s1)(1 := inbox s1 1 @ [?b]), arrived := (arrived s1)(1 := arrived s1 1 @ [?b])\<rparr>"
  define u where "u = received demoConsumer ?a (sharedIO s2)"
  define s3 where "s3 = s2\<lparr>inbox := (inbox s2)(0 := []), sharedIO := handlerReady demoLib demoConsumer (\<lambda>_. ''span'') ?a u,
    stage := (stage s2)(0 := Ready ?a (\<lambda>_ _. returnM ()) (deliveredCtx demoLib demoConsumer ?a u) (deliveredEvent demoLib demoConsumer ?a u)
      (nextSpan u) (clock demoLib (ticks u)))\<rparr>"
  obtain x t where body: "loopBody demoLib demoConsumer ?b (loopView s3 1) = (x, t)" by fastforce
  define s4 where "s4 = endRound 1 ?b None x t (s3\<lparr>inbox := (inbox s3)(1 := [])\<rparr>)"
  have get: "rkh_get demoLib (handlers demoConsumer) ''x'' = None" "rkh_get demoLib (handlers demoConsumer) ''ok'' = Some (\<lambda>_ _. returnM ())"
    by (simp_all add: demoConsumer_def)
  have keys: "RoutingKey ?a = ''ok''" "RoutingKey ?b = ''x''" by (simp_all add: demoDelivery_def)
  have x: "x = Ok ()" using body get keys by (auto simp: loopBody_unhandled)
  have a: "?step s0 s1" unfolding s1_def by (rule arrive)
  have b: "?step s1 s2" unfolding s2_def by (rule arrive)
  have c: "?step s2 s3" unfolding s3_def
    by (rule start [where cs = "\<lambda>_. demoConsumer"]) (use get keys in \<open>simp_all add: s2_def s1_def s0_def startLoops_def u_def\<close>)
  have d: "?step s3 s4" unfolding s4_def
    by (rule unhandled [where cs = "\<lambda>_. demoConsumer", OF _ _ _ body])
      (use get keys in \<open>simp_all add: s3_def s2_def s1_def s0_def startLoops_def\<close>)
  note first = converse_rtranclp_into_rtranclp [where r = ?step]
  have "?step\<^sup>*\<^sup>* s0 s4" by (rule first [OF a first [OF b first [OF c first [OF d rtranclp.rtrancl_refl]]]])
  then show ?thesis unfolding s0_def [symmetric]
    by (intro exI [of _ s4]) (simp add: s4_def endRound_def x s3_def s2_def s1_def s0_def startLoops_def)
qed

theorem interleaved_loops_settle_witness:
  "\<exists>s. (loopStep demoLib (\<lambda>_. demoConsumer))\<^sup>*\<^sup>* (startLoops demoIO) s \<and> unsettled (stage s 0) = [demoDelivery 3 ''ok'']
     \<and> map settledTag (settledBy s 1) = [4]"
proof -
  from demo_loops obtain s where s: "(loopStep demoLib (\<lambda>_. demoConsumer))\<^sup>*\<^sup>* (startLoops demoIO) s"
    "unsettled (stage s 0) = [demoDelivery 3 ''ok'']" "arrived s 1 = [demoDelivery 4 ''x'']" "inbox s 1 = []" "stage s 1 = Idle" by blast
  from interleaved_loops_settle [OF s(1), of 1] have parts: "arrived s 1 = map fst (handled s 1) @ unsettled (stage s 1) @ inbox s 1"
    "settledBy s 1 = map settlementOf (handled s 1)"
    "map settledTag (settledBy s 1) = map Tag (take (length (settledBy s 1)) (arrived s 1))" by blast+
  have "map fst (handled s 1) = [demoDelivery 4 ''x'']" using parts(1) unfolding s(3-5) by simp
  then have "length (map fst (handled s 1)) = 1" by (simp only: list.size One_nat_def add_0)
  then have "length (handled s 1) = 1" by simp
  with parts(2) have "length (settledBy s 1) = 1" by simp
  with parts(3) s(3) have "map settledTag (settledBy s 1) = map Tag (take 1 [demoDelivery 4 ''x''])" by (simp only:)
  then have "map settledTag (settledBy s 1) = [4]" by (simp add: demoDelivery_def)
  with s(1,2) show ?thesis by (intro exI [of _ s] conjI)
qed


subsection \<open>Metrics\<close>

definition deliveryLabels :: "(nat \<Rightarrow> queueConsumer) \<Rightarrow> metrics \<Rightarrow> nat \<Rightarrow> delivery \<Rightarrow> string list" where
  "deliveryLabels cs m i d = [queue (cs i), routingKeyLabel m (RoutingKey d)]"

text \<open>The loops that are working on a delivery counted under the given labels.\<close>

definition inFlight :: "(nat \<Rightarrow> queueConsumer) \<Rightarrow> metrics \<Rightarrow> string list \<Rightarrow> consuming_state \<Rightarrow> nat set" where
  "inFlight cs m ls s = {i. \<exists>d. unsettled (stage s i) = [d] \<and> ls = deliveryLabels cs m i d}"

definition balanced :: "(nat \<Rightarrow> queueConsumer) \<Rightarrow> metrics \<Rightarrow> consuming_state \<Rightarrow> bool" where
  "balanced cs m0 s \<longleftrightarrow>
     routingKeyMapper (metricsSt (sharedIO s)) = routingKeyMapper m0
     \<and> finite {i. unsettled (stage s i) \<noteq> []}
     \<and> (\<forall>i d h c ev sp st. stage s i = Ready d h c ev sp st \<longrightarrow> h \<in> snd ` set (handlers (cs i)))
     \<and> (\<forall>ls. counters (metricsSt (sharedIO s)) eventReceivedCounter ls + settledCount m0 ls =
          counters m0 eventReceivedCounter ls + settledCount (metricsSt (sharedIO s)) ls + card (inFlight cs m0 ls s))"

lemma inFlight_finite: "finite {i. unsettled (stage s i) \<noteq> []} \<Longrightarrow> finite (inFlight cs m ls s)"
  by (rule finite_subset [rotated]) (auto simp: inFlight_def)

lemma inFlight_enter:
  assumes "unsettled (stage s i) = []" and "stage t = (stage s)(i := g)" and "unsettled g = [d]"
    and "finite {i. unsettled (stage s i) \<noteq> []}"
  shows "card (inFlight cs m ls t) = card (inFlight cs m ls s) + (if ls = deliveryLabels cs m i d then 1 else 0)"
    and "finite {i. unsettled (stage t i) \<noteq> []}"
proof -
  have i: "i \<notin> inFlight cs m ls s" using assms(1) by (simp add: inFlight_def)
  have "inFlight cs m ls t = (if ls = deliveryLabels cs m i d then insert i (inFlight cs m ls s) else inFlight cs m ls s)"
    using assms(1-3) by (auto simp: inFlight_def)
  then show "card (inFlight cs m ls t) = card (inFlight cs m ls s) + (if ls = deliveryLabels cs m i d then 1 else 0)"
    using i inFlight_finite [OF assms(4)] by (auto simp: card_insert_if)
  have "{j. unsettled (stage t j) \<noteq> []} = insert i {j. unsettled (stage s j) \<noteq> []}" using assms(2,3) by auto
  then show "finite {i. unsettled (stage t i) \<noteq> []}" using assms(4) by simp
qed

lemma balanced_moved:
  assumes "balanced cs m0 s" and "\<And>i d h c ev sp st. stage t i = Ready d h c ev sp st \<Longrightarrow> h \<in> snd ` set (handlers (cs i))"
    and "routingKeyMapper (metricsSt (sharedIO t)) = routingKeyMapper (metricsSt (sharedIO s))"
    and "finite {i. unsettled (stage t i) \<noteq> []}"
    and "\<And>ls. counters (metricsSt (sharedIO t)) eventReceivedCounter ls + settledCount (metricsSt (sharedIO s)) ls + card (inFlight cs m0 ls s) =
        counters (metricsSt (sharedIO s)) eventReceivedCounter ls + settledCount (metricsSt (sharedIO t)) ls + card (inFlight cs m0 ls t)"
  shows "balanced cs m0 t"
proof -
  have "counters (metricsSt (sharedIO t)) eventReceivedCounter ls + settledCount m0 ls =
          counters m0 eventReceivedCounter ls + settledCount (metricsSt (sharedIO t)) ls + card (inFlight cs m0 ls t)" for ls
  proof -
    have "counters (metricsSt (sharedIO s)) eventReceivedCounter ls + settledCount m0 ls =
        counters m0 eventReceivedCounter ls + settledCount (metricsSt (sharedIO s)) ls + card (inFlight cs m0 ls s)"
      using assms(1) unfolding balanced_def by blast
    with assms(5) [of ls] show ?thesis by linarith
  qed
  then show ?thesis using assms(1-4) unfolding balanced_def by simp
qed

text \<open>Steps that leave the set of deliveries in work as it is.\<close>

lemma balanced_same:
  assumes "balanced cs m0 s" and "\<And>i. unsettled (stage t i) = unsettled (stage s i)"
    and "\<And>i d h c ev sp st. stage t i = Ready d h c ev sp st \<Longrightarrow> stage s i = Ready d h c ev sp st"
    and "routingKeyMapper (metricsSt (sharedIO t)) = routingKeyMapper (metricsSt (sharedIO s))"
    and "\<And>ls. counters (metricsSt (sharedIO t)) eventReceivedCounter ls + settledCount (metricsSt (sharedIO s)) ls =
        counters (metricsSt (sharedIO s)) eventReceivedCounter ls + settledCount (metricsSt (sharedIO t)) ls"
  shows "balanced cs m0 t"
proof (rule balanced_moved [OF assms(1) _ assms(4)])
  show "h \<in> snd ` set (handlers (cs i))" if "stage t i = Ready d h c ev sp st" for i d h c ev sp st
    using assms(1) assms(3) [OF that] unfolding balanced_def by blast
  show "finite {i. unsettled (stage t i) \<noteq> []}" using assms(1,2) unfolding balanced_def by simp
  have "inFlight cs m0 ls t = inFlight cs m0 ls s" for ls using assms(2) by (simp add: inFlight_def)
  then show "counters (metricsSt (sharedIO t)) eventReceivedCounter ls + settledCount (metricsSt (sharedIO s)) ls + card (inFlight cs m0 ls s) =
      counters (metricsSt (sharedIO s)) eventReceivedCounter ls + settledCount (metricsSt (sharedIO t)) ls + card (inFlight cs m0 ls t)" for ls
    using assms(5) [of ls] by simp
qed

lemma received_metrics:
  "counters (eventReceived q k m) eventReceivedCounter ls = counters m eventReceivedCounter ls + (if ls = [q, routingKeyLabel m k] then 1 else 0)"
  "routingKeyMapper (eventReceived q k m) = routingKeyMapper m" "routingKeyLabel (eventReceived q k m) = routingKeyLabel m"
  "routingKeyMapper (eventWithoutHandler q k m) = routingKeyMapper m"
  "routingKeyMapper (verdictMetrics info el r m) = routingKeyMapper m"
  by (cases r; auto simp: event_defs errMetrics_def incCounter_def observe_def routingKeyLabel_def fun_eq_iff)+

lemma routingKeyLabel_cong: "routingKeyMapper m = routingKeyMapper m' \<Longrightarrow> routingKeyLabel m = routingKeyLabel m'"
  by (simp add: routingKeyLabel_def fun_eq_iff)

text \<open>A loop that takes up a delivery, and one that is done with it.\<close>

lemma balanced_start:
  assumes inv: "balanced cs m0 s" and idle: "stage s i = Idle" and h: "h \<in> snd ` set (handlers (cs i))"
    and t: "stage t = (stage s)(i := Ready d h c ev sp st)"
      "metricsSt (sharedIO t) = eventReceived (queue (cs i)) (RoutingKey d) (metricsSt (sharedIO s))"
  shows "balanced cs m0 t"
proof -
  have fin: "finite {i. unsettled (stage s i) \<noteq> []}" and map: "routingKeyMapper (metricsSt (sharedIO s)) = routingKeyMapper m0"
    and ready: "\<And>i d h c ev sp st. stage s i = Ready d h c ev sp st \<Longrightarrow> h \<in> snd ` set (handlers (cs i))"
    using inv unfolding balanced_def by blast+
  note enter = inFlight_enter [where t = t and d = d, OF _ t(1) _ fin]
  from h idle t ready enter routingKeyLabel_cong [OF map] show ?thesis
    by (intro balanced_moved [OF inv]) (auto simp: settledCount_events received_metrics deliveryLabels_def split: if_splits)
qed

lemma balanced_finish:
  assumes inv: "balanced cs m0 s" and s: "stage s i = Returned d sp st r" and r: "r = Ok () \<or> r = Err e"
    and idle: "stage t = (stage s)(i := Idle)"
    and m: "metricsSt (sharedIO t) = verdictMetrics (deliveredInfo L (cs i) d) el r (metricsSt (sharedIO s))"
  shows "balanced cs m0 t"
proof -
  have fin: "finite {i. unsettled (stage s i) \<noteq> []}" and map: "routingKeyMapper (metricsSt (sharedIO s)) = routingKeyMapper m0"
    and ready: "\<And>i d h c ev sp st. stage s i = Ready d h c ev sp st \<Longrightarrow> h \<in> snd ` set (handlers (cs i))"
    using inv unfolding balanced_def by blast+
  have fin': "finite {i. unsettled (stage t i) \<noteq> []}"
    by (rule finite_subset [OF _ fin]) (use idle in auto)
  have "stage s = (stage t)(i := stage s i)" by (simp add: idle)
  note leave = inFlight_enter(1) [where s = t and t = s, OF _ this _ fin', of d cs m0]
  note counts = settledCount_verdict(1) [OF r, of "deliveredInfo L (cs i) d" el "metricsSt (sharedIO s)"]
  show ?thesis
  proof (rule balanced_moved [OF inv _ _ fin'])
    show "h \<in> snd ` set (handlers (cs j))" if "stage t j = Ready d' h c ev sp' st'" for j d' h c ev sp' st'
      using that ready by (auto simp: idle split: if_splits)
    show "routingKeyMapper (metricsSt (sharedIO t)) = routingKeyMapper (metricsSt (sharedIO s))" by (simp add: m received_metrics)
    show "counters (metricsSt (sharedIO t)) eventReceivedCounter ls + settledCount (metricsSt (sharedIO s)) ls + card (inFlight cs m0 ls s) =
        counters (metricsSt (sharedIO s)) eventReceivedCounter ls + settledCount (metricsSt (sharedIO t)) ls + card (inFlight cs m0 ls t)" for ls
      using counts [of ls] leave [of ls] s routingKeyLabel_cong [OF map]
      by (simp add: m settledCount_verdict(2) idle deliveryLabels_def deliveredInfo_def)
  qed
qed

lemma loopStep_balanced:
  assumes handlers: "\<forall>i. \<forall>h \<in> snd ` set (handlers (cs i)). \<forall>k ev. keeps same_consumer_metrics (h k ev)"
    and inv: "balanced cs m0 s" and step: "loopStep L cs s t"
  shows "balanced cs m0 t"
  using step
proof cases
  case (unhandled i d ds x t')
  then have t': "x = Ok ()" "metricsSt (lio t') = eventWithoutHandler (queue (cs i)) (RoutingKey d)
      (eventReceived (queue (cs i)) (RoutingKey d) (metricsSt (sharedIO s)))"
    by (auto simp: loopBody_unhandled loopView_def)
  show ?thesis
    by (rule balanced_same [OF inv]) (use unhandled(1,2) t' in \<open>auto simp: endRound_def settledCount_events
      received_metrics split: if_splits\<close>)
next
  case (start i d ds h nameFn u)
  have "h \<in> snd ` set (handlers (cs i))" using rkh_get_member [OF start(4)] by force
  then show ?thesis
    by (rule balanced_start [OF inv start(2)]) (use start(1,6) in \<open>simp_all add: handlerReady_def received_def\<close>)
next
  case (handle i d h c ev sp st r t')
  have "h \<in> snd ` set (handlers (cs i))" using inv handle(2) unfolding balanced_def by blast
  then have "keeps same_consumer_metrics (h c ev)" using handlers by blast
  from keepsD [OF this handle(3)] have m: "same_consumer_metrics (sharedIO s) t'" .
  show ?thesis
    by (rule balanced_same [OF inv]) (use handle(1,2) m in \<open>auto simp: same_consumer_metrics_def settledCount_def split: if_splits\<close>)
next
  case (finish i d sp st r x t')
  note out = afterHandler_outcome(1,3) [OF finish(3)]
  have m: "metricsSt (sharedIO t) = verdictMetrics (deliveredInfo L (cs i) d) (clock L (ticks (sharedIO s)) - st) r (metricsSt (sharedIO s))"
    using out(2) finish(1) by (simp add: endRound_def loopView_def)
  show ?thesis
  proof (cases "x = Ok ()")
    case False
    then have "verdictMetrics info el r m = m" for info el m using out(1) by (cases r) auto
    then show ?thesis by (intro balanced_same [OF inv]) (use finish(1,2) False m in \<open>auto simp: endRound_def split: if_splits\<close>)
  next
    case True
    then obtain e where "r = Ok () \<or> r = Err e" using out(1) by (cases r) auto
    then show ?thesis by (rule balanced_finish [OF inv finish(2) _ _ m]) (use True finish(1) in \<open>simp add: endRound_def\<close>)
  qed
next
  case (arrive i d)
  then show ?thesis by (intro balanced_same [OF inv]) simp_all
next
  case (others t')
  then show ?thesis
    by (intro balanced_same [OF inv]) (simp_all add: same_consumer_metrics_def settledCount_def)
qed

interpretation balancing: guarded_system "loopStep L cs"
    "\<lambda>s. (\<forall>i. \<forall>h \<in> snd ` set (handlers (cs i)). \<forall>k ev. keeps same_consumer_metrics (h k ev)) \<and> balanced cs m0 s" for L cs m0
  by unfold_locales (blast intro: loopStep_balanced)

text \<open>
  C20: the consumers' counters balance at every moment. While any number of consumer loops run concurrently,
  with handlers and other goroutines that do not touch these counters, the number of events received under some labels exceeds
  the numbers acknowledged, nacked, without handler and not parsable together by exactly the number of
  loops that are working on a delivery with these labels: no interleaving counts a delivery twice or forgets one, and
  when all loops are idle the counters agree.
\<close>

theorem interleaved_metrics_balance:
  assumes "\<forall>i. \<forall>h \<in> snd ` set (handlers (cs i)). \<forall>k ev. keeps same_consumer_metrics (h k ev)"
    and "(loopStep L cs)\<^sup>*\<^sup>* (startLoops s0) s"
  shows "counters (metricsSt (sharedIO s)) eventReceivedCounter ls + settledCount (metricsSt s0) ls =
      counters (metricsSt s0) eventReceivedCounter ls + settledCount (metricsSt (sharedIO s)) ls
      + card {i. \<exists>d. unsettled (stage s i) = [d] \<and> ls = [queue (cs i), routingKeyLabel (metricsSt s0) (RoutingKey d)]}
    \<and> finite {i. unsettled (stage s i) \<noteq> []}"
proof -
  have "balanced cs (metricsSt s0) (startLoops s0)"
    by (simp add: balanced_def startLoops_def inFlight_def)
  with balancing.reach_keeps [OF assms(2)] assms(1) have "balanced cs (metricsSt s0) s" by blast
  then show ?thesis by (simp add: balanced_def inFlight_def deliveryLabels_def)
qed

theorem interleaved_metrics_balance_witness:
  "\<exists>s. (loopStep demoLib (\<lambda>_. demoConsumer))\<^sup>*\<^sup>* (startLoops demoIO) s
     \<and> counters (metricsSt (sharedIO s)) eventReceivedCounter [''q'', ''ok''] > settledCount (metricsSt (sharedIO s)) [''q'', ''ok'']"
proof -
  from demo_loops obtain s where s: "(loopStep demoLib (\<lambda>_. demoConsumer))\<^sup>*\<^sup>* (startLoops demoIO) s"
    "unsettled (stage s 0) = [demoDelivery 3 ''ok'']" by blast
  have keep: "\<forall>i. \<forall>h \<in> snd ` set (handlers ((\<lambda>_. demoConsumer) i)). \<forall>k ev. keeps same_consumer_metrics (h k ev)"
    by (simp add: demoConsumer_def same_consumer_metrics.keeps_return same_consumer_metrics.keeps_fail)
  let ?in = "{i. \<exists>d. unsettled (stage s i) = [d] \<and> [''q'', ''ok''] = [queue ((\<lambda>_. demoConsumer) i), routingKeyLabel (metricsSt demoIO) (RoutingKey d)]}"
  note balance = interleaved_metrics_balance [OF keep s(1), of "[''q'', ''ok'']"]
  have "finite ?in" by (rule finite_subset [OF _ balance [THEN conjunct2]]) auto
  moreover have "0 \<in> ?in" using s(2) by (simp add: demoDelivery_def routingKeyLabel_def demoIO_def)
  ultimately have "card ?in > 0" by (auto simp: card_gt_0_iff)
  moreover have "settledCount (metricsSt demoIO) [''q'', ''ok''] = 0" "counters (metricsSt demoIO) eventReceivedCounter [''q'', ''ok''] = 0"
    by (simp_all add: settledCount_def demoIO_def)
  ultimately have "counters (metricsSt (sharedIO s)) eventReceivedCounter [''q'', ''ok''] > settledCount (metricsSt (sharedIO s)) [''q'', ''ok'']"
    using balance [THEN conjunct1] by linarith
  with s(1) show ?thesis by (intro exI [of _ s] conjI)
qed

end
