(* ===== verification/Publisher_Concurrent.thy ===== *)
theory Publisher_Concurrent
  imports Outbox Interleaving
begin

text \<open>
  Concurrent publishing. \<open>Publisher.Publish\<close> and \<open>OutboxRawPublisher.PublishRaw\<close> hold the mutex
  of the publisher from their first statement to their return. Here every call of a goroutine is split
  at the points where another goroutine or the broker can come in between: taking the
  mutex, everything up to the \<open>select\<close>, the \<open>select\<close>, and the deferred \<open>Unlock\<close>. The broker
  confirms at its own pace; goroutines that do not use this publisher do whatever they like
  with the rest of the state. The pieces are those of the functions in \<open>Publisher\<close> and \<open>Outbox\<close>
  (\<open>runOp_phases\<close>).
\<close>

fun opSend :: "lib \<Rightarrow> nat \<Rightarrow> ('m \<Rightarrow> string + string) \<Rightarrow> 'm publishOp \<Rightarrow> (io, unit) M" where
  "opSend L p marshal (PublishOp c rk msg headers) =
     bindM (getM (\<lambda>s. pubs s p)) (\<lambda>pub.
     case addHeaders headers (defaultTable (defaultHeaders pub)) of
       Inl e \<Rightarrow> failM e
     | Inr table \<Rightarrow>
         publishMessage L c (pubTracer pub) (pubPropagator pub) (pubSpanNameFn pub) (channel pub)
           marshal msg rk (exchange pub) (pubServiceName pub) (Some table))"
| "opSend L p marshal (RawOp c rk payload headers) =
     bindM (getM (\<lambda>s. pubs s p)) (\<lambda>pub.
     if channel pub = None then failM (ErrText ''amqp outbox: publisher not initialized'')
     else
       wrapM (''amqp outbox: publish to '' @ exchange pub @ ''/'' @ rk @ '': '')
         (chPublishWithContext L (channel pub) c (exchange pub) rk False False (outboxMessage L payload headers)))"

fun nackText :: "publisher \<Rightarrow> 'm publishOp \<Rightarrow> string" where
  "nackText pub (PublishOp c rk msg headers) = ''broker nacked publish to '' @ exchange pub @ ''/'' @ rk"
| "nackText pub (RawOp c rk payload headers) = ''broker nacked outbox publish to '' @ exchange pub @ ''/'' @ rk"

fun cancelText :: "'m publishOp \<Rightarrow> string" where
  "cancelText (PublishOp c rk msg headers) = ''context cancelled waiting for publish confirm: ''"
| "cancelText (RawOp c rk payload headers) = ''context cancelled waiting for outbox publish confirm: ''"

definition opWait :: "lib \<Rightarrow> nat \<Rightarrow> 'm publishOp \<Rightarrow> (io, unit) M" where
  "opWait L p op = bindM (getM (\<lambda>s. pubs s p)) (\<lambda>pub.
     waitConfirm L (opCtx op) (confirmCh pub) (nackText pub op) (cancelText op))"

datatype phase = NoCall | Calling | Locked | Waiting | Unlocking "unit res" | Finished "unit res"

text \<open>
  The state of all goroutines of one publisher; each makes one call or none. Besides the shared state,
  the mutex and where each call is: how many messages the broker has confirmed, which delivery tag a
  message got and how many waits had been given up when it was sent.
\<close>

record publishing_state =
  shared :: io
  mu :: "nat option"
  phase :: "nat \<Rightarrow> phase"
  confirmed :: nat
  sentAs :: "nat \<Rightarrow> (nat \<times> nat) option"
  givenUp :: nat

text \<open>
  What the environment answers at a \<open>select\<close>: no more confirmations than those that are there, and
  whether the context is done and which ready case is taken.
\<close>

definition selecting :: "lib \<Rightarrow> string option \<Rightarrow> bool \<Rightarrow> lib" where
  "selecting L e b = L\<lparr>arrivals := \<lambda>_ _. [], ctxErr := \<lambda>_ _. e, selectsConfirm := \<lambda>_. b\<rparr>"

inductive publishStep ::
  "lib \<Rightarrow> nat \<Rightarrow> nat \<Rightarrow> nat \<Rightarrow> (nat \<Rightarrow> bool) \<Rightarrow> ('m \<Rightarrow> string + string) \<Rightarrow> (nat \<Rightarrow> 'm publishOp)
     \<Rightarrow> publishing_state \<Rightarrow> publishing_state \<Rightarrow> bool"
  for L p n q verdict marshal ops where
  lock: "phase s g = Calling \<Longrightarrow> mu s = None \<Longrightarrow>
    publishStep L p n q verdict marshal ops s (s\<lparr>mu := Some g, phase := (phase s)(g := Locked)\<rparr>)"
| send: "phase s g = Locked \<Longrightarrow> opSend L p marshal (ops g) (shared s) = (Ok (), t) \<Longrightarrow>
    publishStep L p n q verdict marshal ops s
      (s\<lparr>shared := t, phase := (phase s)(g := Waiting),
         sentAs := (sentAs s)(g := Some (acceptedOn L n (calls t), givenUp s))\<rparr>)"
| notSent: "phase s g = Locked \<Longrightarrow> opSend L p marshal (ops g) (shared s) = (r, t) \<Longrightarrow>
    r \<noteq> Ok () \<Longrightarrow> r \<noteq> Blocked \<Longrightarrow>
    publishStep L p n q verdict marshal ops s (s\<lparr>shared := t, phase := (phase s)(g := Unlocking r)\<rparr>)"
| confirm: "confirmed s < acceptedOn L n (calls (shared s)) \<Longrightarrow>
    publishStep L p n q verdict marshal ops s
      (s\<lparr>shared := (shared s)\<lparr>confirmQ := (confirmQ (shared s))(q := confirmQ (shared s) q @
           [\<lparr>DeliveryTag = Suc (confirmed s), Ack = verdict (Suc (confirmed s))\<rparr>])\<rparr>,
         confirmed := Suc (confirmed s)\<rparr>)"
| receive: "phase s g = Waiting \<Longrightarrow> opWait (selecting L None b) p (ops g) (shared s) = (r, t) \<Longrightarrow>
    r \<noteq> Blocked \<Longrightarrow>
    publishStep L p n q verdict marshal ops s (s\<lparr>shared := t, phase := (phase s)(g := Unlocking r)\<rparr>)"
| unlock: "phase s g = Unlocking r \<Longrightarrow>
    publishStep L p n q verdict marshal ops s (s\<lparr>mu := None, phase := (phase s)(g := Finished r)\<rparr>)"

text \<open>
  With cancelled contexts and with the rest of the program: a wait may end because its context is
  done, and what other goroutines do keeps the publisher, its confirmations and the messages on its channel.
\<close>

inductive anyStep ::
  "lib \<Rightarrow> nat \<Rightarrow> nat \<Rightarrow> nat \<Rightarrow> (nat \<Rightarrow> bool) \<Rightarrow> ('m \<Rightarrow> string + string) \<Rightarrow> (nat \<Rightarrow> 'm publishOp)
     \<Rightarrow> publishing_state \<Rightarrow> publishing_state \<Rightarrow> bool"
  for L p n q verdict marshal ops where
  own: "publishStep L p n q verdict marshal ops s t \<Longrightarrow> anyStep L p n q verdict marshal ops s t"
| cancelled: "phase s g = Waiting \<Longrightarrow> opWait (selecting L (Some e) b) p (ops g) (shared s) = (r, t) \<Longrightarrow>
    anyStep L p n q verdict marshal ops s
      (s\<lparr>shared := t, phase := (phase s)(g := Unlocking r),
         givenUp := givenUp s + (if confirmQ t q = confirmQ (shared s) q then 1 else 0)\<rparr>)"
| other: "pubs t p = pubs (shared s) p \<Longrightarrow> confirmQ t q = confirmQ (shared s) q \<Longrightarrow>
    acceptedOn L n (calls t) = acceptedOn L n (calls (shared s)) \<Longrightarrow>
    anyStep L p n q verdict marshal ops s (s\<lparr>shared := t\<rparr>)"

text \<open>The goroutines \<open>G\<close> before their calls.\<close>

definition startPublishing :: "lib \<Rightarrow> nat \<Rightarrow> nat set \<Rightarrow> io \<Rightarrow> publishing_state" where
  "startPublishing L n G s = \<lparr>shared = s, mu = None, phase = (\<lambda>g. if g \<in> G then Calling else NoCall), confirmed = acceptedOn L n (calls s),
     sentAs = (\<lambda>_. None), givenUp = 0\<rparr>"


subsection \<open>The pieces of a call\<close>

lemma acceptedOn_snoc:
  "acceptedOn L n (h @ [c]) = acceptedOn L n h + (if isPublishOn n c \<and> amqpErr L h c = None then 1 else 0)"
proof -
  have "filter (\<lambda>i. isPublishOn n ((h @ [c]) ! i) \<and> amqpErr L (take i (h @ [c])) ((h @ [c]) ! i) = None) [0..<length h]
      = filter (\<lambda>i. isPublishOn n (h ! i) \<and> amqpErr L (take i h) (h ! i) = None) [0..<length h]"
    by (rule filter_cong) (auto simp: nth_append)
  then show ?thesis by (simp add: acceptedOn_def)
qed

lemma opSend_effect:
  assumes "channel (pubs s p) = Some (AmqpChannel n)" and "opSend L p marshal op s = (r, t)"
  shows "pubs t = pubs s" "confirmQ t = confirmQ s"
    "acceptedOn L n (calls t) = acceptedOn L n (calls s) + (if r = Ok () then 1 else 0)"
    "r = Ok () \<or> (\<exists>e. r = Err e)"
    "r = Ok () \<longrightarrow> (\<exists>call. calls t = calls s @ [call] \<and> isPublishOn n call \<and> amqpErr L (calls s) call = None)"
proof -
  have "pubs t = pubs s \<and> confirmQ t = confirmQ s
    \<and> acceptedOn L n (calls t) = acceptedOn L n (calls s) + (if r = Ok () then 1 else 0)
    \<and> (r = Ok () \<or> (\<exists>e. r = Err e))
    \<and> (r = Ok () \<longrightarrow> (\<exists>call. calls t = calls s @ [call] \<and> isPublishOn n call \<and> amqpErr L (calls s) call = None))"
  proof (cases op)
    case (RawOp c rk payload headers)
    then show ?thesis using assms
      by (auto simp: bindM_run getM_run wrapM_run channel_op_defs invoke_run acceptedOn_snoc split: option.splits)
  next
    case (PublishOp c rk msg headers)
    define pub where "pub = pubs s p"
    show ?thesis
    proof (cases "addHeaders headers (defaultTable (defaultHeaders pub))")
      case (Inl e)
      then show ?thesis using assms PublishOp by (auto simp: bindM_run getM_run failM_run pub_def)
    next
      case (Inr table)
      then have run: "publishMessage L c (pubTracer pub) (pubPropagator pub) (pubSpanNameFn pub) (Some (AmqpChannel n))
          marshal msg rk (exchange pub) (pubServiceName pub) (Some table) s = (r, t)"
        using assms PublishOp by (simp add: bindM_run getM_run pub_def)
      show ?thesis
      proof (cases "marshal msg")
        case (Inl e)
        then show ?thesis using run by (auto simp: publishMessage_marshal_error)
      next
        case (Inr body)
        from publishMessage_on_channel [OF Inr run] show ?thesis
          by (auto simp: acceptedOn_snoc publishCall_def split: option.splits)
      qed
    qed
  qed
  then show "pubs t = pubs s" "confirmQ t = confirmQ s"
    "acceptedOn L n (calls t) = acceptedOn L n (calls s) + (if r = Ok () then 1 else 0)"
    "r = Ok () \<or> (\<exists>e. r = Err e)"
    "r = Ok () \<longrightarrow> (\<exists>call. calls t = calls s @ [call] \<and> isPublishOn n call \<and> amqpErr L (calls s) call = None)"
    by simp_all
qed

lemma runOp_phases:
  assumes "channel (pubs s p) = Some (AmqpChannel n)"
  shows "runOp L p marshal op s = thenM (opSend L p marshal op) (opWait L p op) s"
proof -
  obtain r t where send: "opSend L p marshal op s = (r, t)" by fastforce
  have same: "pubs t = pubs s" by (rule opSend_effect(1) [OF assms send])
  show ?thesis
  proof (cases op)
    case (PublishOp c rk msg headers)
    with send same show ?thesis
      by (auto simp: Publish_def opWait_def bindM_run getM_run failM_run split: sum.splits res.splits prod.splits)
  next
    case (RawOp c rk payload headers)
    with send same assms show ?thesis
      by (auto simp: PublishRaw_def opWait_def bindM_run getM_run failM_run split: res.splits prod.splits)
  qed
qed

lemma opWait_select:
  assumes "confirmCh (pubs s p) = Some q"
  shows "opWait (selecting L e b) p op s =
    (case (confirmQ s q, e) of
       ([], None) \<Rightarrow> (Blocked, s)
     | ([], Some x) \<Rightarrow> (Err (ErrWrap (cancelText op) (ErrText x)), s)
     | (cf # cfs, x) \<Rightarrow>
         if e = None \<or> b
         then (if Ack cf then Ok () else Err (ErrText (nackText (pubs s p) op)), s\<lparr>confirmQ := (confirmQ s)(q := cfs)\<rparr>)
         else (Err (ErrWrap (cancelText op) (ErrText (the e))), s))"
  using assms
  by (cases "confirmQ s q"; cases e; cases s)
    (auto simp: opWait_def selecting_def waitConfirm_def selectConfirm_def run_simps Let_def fun_upd_idem)


text \<open>A wait that ends has taken the oldest confirmation, or gave up because its context is done.\<close>

lemma opWait_cases [consumes 3, case_names took gave_up]:
  assumes "confirmCh (pubs s p) = Some q" and "opWait (selecting L e b) p op s = (r, t)" and "r \<noteq> Blocked"
  obtains cf cfs where "confirmQ s q = cf # cfs" "t = s\<lparr>confirmQ := (confirmQ s)(q := cfs)\<rparr>"
      "r = (if Ack cf then Ok () else Err (ErrText (nackText (pubs s p) op)))"
  | "e \<noteq> None" "t = s" "r = Err (ErrWrap (cancelText op) (ErrText (the e)))"
  using assms(2,3) by (auto simp: opWait_select [OF assms(1)] split: list.splits option.splits if_splits)


subsection \<open>The invariant\<close>

fun holding :: "phase \<Rightarrow> bool" where
  "holding NoCall = False"
| "holding Calling = False"
| "holding (Finished r) = False"
| "holding ph = True"

text \<open>
  What a call reports whose message got delivery tag \<open>tag\<close> and was sent after \<open>k\<close> waits had been
  given up: the broker's verdict on the message sent \<open>k\<close> messages earlier, or that it was itself given up.
\<close>

definition reports ::
  "(nat \<Rightarrow> bool) \<Rightarrow> publisher \<Rightarrow> 'm publishOp \<Rightarrow> publishing_state \<Rightarrow> nat \<Rightarrow> nat \<Rightarrow> unit res \<Rightarrow> bool" where
  "reports verdict pub op s tag k r \<longleftrightarrow>
     (k < tag \<and> tag - k \<le> confirmed s \<and> r = (if verdict (tag - k) then Ok () else Err (ErrText (nackText pub op))))
     \<or> (k < givenUp s \<and> (\<exists>e. r = Err (ErrWrap (cancelText op) (ErrText e))))"

definition call_ok ::
  "lib \<Rightarrow> nat \<Rightarrow> (nat \<Rightarrow> bool) \<Rightarrow> publisher \<Rightarrow> (nat \<Rightarrow> 'm publishOp) \<Rightarrow> publishing_state \<Rightarrow> nat \<Rightarrow> bool" where
  "call_ok L n verdict pub ops s g =
     (let result = (\<lambda>r. case sentAs s g of None \<Rightarrow> \<exists>e. r = Err e
        | Some (tag, k) \<Rightarrow> reports verdict pub (ops g) s tag k r)
      in case phase s g of
        NoCall \<Rightarrow> sentAs s g = None
      | Calling \<Rightarrow> sentAs s g = None
      | Locked \<Rightarrow> sentAs s g = None
      | Waiting \<Rightarrow> sentAs s g = Some (acceptedOn L n (calls (shared s)), givenUp s)
      | Unlocking r \<Rightarrow> result r
      | Finished r \<Rightarrow> result r)"

definition waits :: "publishing_state \<Rightarrow> nat" where
  "waits s = (if \<exists>g. phase s g = Waiting then 1 else 0)"

text \<open>The confirmations the broker has delivered and nobody has read, oldest first.\<close>

definition unread :: "(nat \<Rightarrow> bool) \<Rightarrow> nat \<Rightarrow> nat \<Rightarrow> confirmation list" where
  "unread verdict taken m = map (\<lambda>i. \<lparr>DeliveryTag = Suc i, Ack = verdict (Suc i)\<rparr>) [taken..<m]"

definition publish_inv ::
  "lib \<Rightarrow> nat \<Rightarrow> nat \<Rightarrow> nat \<Rightarrow> (nat \<Rightarrow> bool) \<Rightarrow> publisher \<Rightarrow> (nat \<Rightarrow> 'm publishOp) \<Rightarrow> publishing_state \<Rightarrow> bool" where
  "publish_inv L p n q verdict pub ops s \<longleftrightarrow>
     pubs (shared s) p = pub \<and> channel pub = Some (AmqpChannel n) \<and> confirmCh pub = Some q
     \<and> (\<forall>g. holding (phase s g) \<longleftrightarrow> mu s = Some g)
     \<and> (\<exists>taken. taken + givenUp s + waits s = acceptedOn L n (calls (shared s)) \<and> taken \<le> confirmed s
          \<and> confirmQ (shared s) q = unread verdict taken (confirmed s))
     \<and> confirmed s \<le> acceptedOn L n (calls (shared s))
     \<and> (\<forall>g. call_ok L n verdict pub ops s g)
     \<and> (\<forall>g tag k. sentAs s g = Some (tag, k) \<longrightarrow> tag \<le> acceptedOn L n (calls (shared s)) \<and> k \<le> givenUp s)
     \<and> (\<forall>g g' tag k k'. sentAs s g = Some (tag, k) \<and> sentAs s g' = Some (tag, k') \<longrightarrow> g = g')"

lemma start_inv:
  "inSync p n q s \<Longrightarrow> publish_inv L p n q verdict (pubs s p) ops (startPublishing L n G s)"
  by (auto simp: publish_inv_def startPublishing_def inSync_def call_ok_def waits_def unread_def)

lemma unread_simps [simp]:
  "unread verdict k k = []"
  "taken \<le> m \<Longrightarrow> unread verdict taken (Suc m) = unread verdict taken m @ [\<lparr>DeliveryTag = Suc m, Ack = verdict (Suc m)\<rparr>]"
  by (simp_all add: unread_def)

lemma unread_Cons:
  "unread verdict taken m = cf # cfs \<Longrightarrow>
   taken < m \<and> cf = \<lparr>DeliveryTag = Suc taken, Ack = verdict (Suc taken)\<rparr> \<and> cfs = unread verdict (Suc taken) m"
  by (cases "taken < m") (auto simp: unread_def upt_conv_Cons)

lemma waits_unique:
  assumes "\<forall>g. holding (phase s g) \<longleftrightarrow> mu s = Some g" and "mu s = Some g"
  shows "waits s = (if phase s g = Waiting then 1 else 0)"
  using assms unfolding waits_def by (metis holding.simps(5) option.inject)

lemma waits_none:
  assumes "\<forall>g. holding (phase s g) \<longleftrightarrow> mu s = Some g" and "mu s = None"
  shows "waits s = 0"
  using assms unfolding waits_def by (metis holding.simps(5) option.distinct(1))

lemma call_ok_other:
  assumes "call_ok L n verdict pub ops s g" and "phase t g = phase s g" and "sentAs t g = sentAs s g"
    and "phase s g = Waiting \<longrightarrow> acceptedOn L n (calls (shared t)) = acceptedOn L n (calls (shared s)) \<and> givenUp t = givenUp s"
    and "confirmed s \<le> confirmed t" and "givenUp s \<le> givenUp t"
  shows "call_ok L n verdict pub ops t g"
proof -
  have "reports verdict pub op s tag k r \<Longrightarrow> reports verdict pub op t tag k r" for op tag k r
    using assms(5,6) by (auto simp: reports_def)
  then show ?thesis using assms(1,4) unfolding call_ok_def Let_def assms(2,3)
    by (cases "phase s g"; cases "sentAs s g") (simp_all add: prod.case_eq_if)
qed

text \<open>A message that is sent gets a delivery tag that no earlier message has.\<close>

lemma tags_distinct:
  assumes inv: "publish_inv L p n q verdict pub ops s" and others: "\<forall>h. h \<noteq> g \<longrightarrow> sentAs t h = sentAs s h"
    and new: "sentAs t g = sentAs s g \<or> (\<exists>k. sentAs t g = Some (Suc (acceptedOn L n (calls (shared s))), k))"
    and same: "sentAs t h = Some (tag, k)" "sentAs t h' = Some (tag, k')"
  shows "h = h'"
proof -
  have bound: "a \<le> acceptedOn L n (calls (shared s))" if "sentAs s x = Some (a, c)" for x a c
    using inv that unfolding publish_inv_def by blast
  have old: "x = y" if "sentAs s x = Some (a, c)" "sentAs s y = Some (a, d)" for x y a c d
    using inv that unfolding publish_inv_def by blast
  show ?thesis
  proof (cases "sentAs t g = sentAs s g")
    case True
    then have "sentAs t = sentAs s" using others by (metis ext)
    with same old show ?thesis by metis
  next
    case False
    then have "tag = Suc (acceptedOn L n (calls (shared s)))" if "h = g \<or> h' = g" using that new same by auto
    then show ?thesis using bound [of h tag k] bound [of h' tag k'] old [of h tag k h' k'] same others
      by (cases "h = g"; cases "h' = g") auto
  qed
qed

text \<open>
  A step of the goroutine that holds the mutex, or takes it: what has to be shown of it for the
  invariant, the calls of all others being where they were.
\<close>

lemma inv_moved:
  assumes inv: "publish_inv L p n q verdict pub ops s" and only: "\<And>h. h \<noteq> g \<Longrightarrow> \<not> holding (phase s h)"
    and t: "phase t = (phase s)(g := ph)" "\<forall>h. h \<noteq> g \<longrightarrow> sentAs t h = sentAs s h" "confirmed t = confirmed s"
      "givenUp s \<le> givenUp t" "pubs (shared t) p = pub" "mu t = (if holding ph then Some g else None)"
    and accepted: "acceptedOn L n (calls (shared s)) \<le> acceptedOn L n (calls (shared t))"
    and count: "\<exists>taken. taken + givenUp t + waits t = acceptedOn L n (calls (shared t)) \<and> taken \<le> confirmed t
          \<and> confirmQ (shared t) q = unread verdict taken (confirmed t)"
    and own: "call_ok L n verdict pub ops t g"
    and tag: "sentAs t g = sentAs s g \<or> (\<exists>k \<le> givenUp t. sentAs t g = Some (Suc (acceptedOn L n (calls (shared s))), k)
        \<and> acceptedOn L n (calls (shared t)) = Suc (acceptedOn L n (calls (shared s))))"
  shows "publish_inv L p n q verdict pub ops t"
proof -
  note I = inv [unfolded publish_inv_def]
  have "call_ok L n verdict pub ops t h" for h
  proof (cases "h = g")
    case False
    have "call_ok L n verdict pub ops s h" using I by blast
    then show ?thesis
      by (rule call_ok_other) (use False t only [OF False] in \<open>auto\<close>)
  qed (simp add: own)
  moreover have "holding (phase t h) \<longleftrightarrow> mu t = Some h" for h
    using only [of h] t(1,6) by auto
  moreover have "tag' \<le> acceptedOn L n (calls (shared t)) \<and> k \<le> givenUp t" if "sentAs t h = Some (tag', k)" for h tag' k
    using that t(2,4) tag I accepted by (cases "h = g") (fastforce intro: le_trans)+
  moreover have "h = h'" if "sentAs t h = Some (tag', k)" "sentAs t h' = Some (tag', k')" for h h' tag' k k'
    by (rule tags_distinct [OF inv t(2) _ that]) (use tag in blast)
  moreover have "confirmed t \<le> acceptedOn L n (calls (shared t))" using I t(3) accepted by simp
  moreover have "channel pub = Some (AmqpChannel n)" "confirmCh pub = Some q" using I by blast+
  ultimately show ?thesis using t(5) count unfolding publish_inv_def by blast
qed

lemma inv_unmoved:
  assumes inv: "publish_inv L p n q verdict pub ops s"
    and t: "phase t = phase s" "sentAs t = sentAs s" "mu t = mu s" "givenUp t = givenUp s" "confirmed s \<le> confirmed t"
      "pubs (shared t) p = pub" "acceptedOn L n (calls (shared t)) = acceptedOn L n (calls (shared s))"
      "confirmed t \<le> acceptedOn L n (calls (shared t))"
    and queue: "\<And>taken. taken \<le> confirmed s \<Longrightarrow> confirmQ (shared s) q = unread verdict taken (confirmed s) \<Longrightarrow>
      confirmQ (shared t) q = unread verdict taken (confirmed t)"
  shows "publish_inv L p n q verdict pub ops t"
proof -
  note I = inv [unfolded publish_inv_def]
  have "call_ok L n verdict pub ops t g" for g
    by (rule call_ok_other [of _ _ _ _ _ s]) (use I t in auto)
  moreover have "waits t = waits s" using t(1) by (simp add: waits_def)
  moreover from I obtain taken where "taken + givenUp s + waits s = acceptedOn L n (calls (shared s))" "taken \<le> confirmed s"
      "confirmQ (shared s) q = unread verdict taken (confirmed s)" by blast
  ultimately show ?thesis
    using I t queue [of taken] unfolding publish_inv_def t(1-4,6,7) by (auto intro: exI [of _ taken])
qed

lemma only_holder:
  assumes "publish_inv L p n q verdict pub ops s" and "holding (phase s g)" and "h \<noteq> g"
  shows "\<not> holding (phase s h)"
  using assms unfolding publish_inv_def by (metis option.inject)

lemma waits_moved:
  assumes "\<And>h. h \<noteq> g \<Longrightarrow> \<not> holding (phase s h)" and "phase t = (phase s)(g := ph)"
  shows "waits t = (if ph = Waiting then 1 else 0)"
  using assms unfolding waits_def by (metis fun_upd_apply holding.simps(5))

lemma taken_of:
  assumes "publish_inv L p n q verdict pub ops s"
  obtains taken where "taken + givenUp s + waits s = acceptedOn L n (calls (shared s))" "taken \<le> confirmed s"
      "confirmQ (shared s) q = unread verdict taken (confirmed s)"
  using assms unfolding publish_inv_def by blast

text \<open>The end of a wait.\<close>

lemma wait_inv:
  assumes inv: "publish_inv L p n q verdict pub ops s" and g: "phase s g = Waiting"
    and run: "opWait (selecting L e b) p (ops g) (shared s) = (r, t)" and "r \<noteq> Blocked"
    and k: "k = (if confirmQ t q = confirmQ (shared s) q then 1 else 0)"
  shows "publish_inv L p n q verdict pub ops (s\<lparr>shared := t, phase := (phase s)(g := Unlocking r), givenUp := givenUp s + k\<rparr>)"
    and "e = None \<Longrightarrow> k = 0"
proof -
  note I = inv [unfolded publish_inv_def]
  have only: "\<And>h. h \<noteq> g \<Longrightarrow> \<not> holding (phase s h)" using only_holder [OF inv] g by (metis holding.simps(5))
  from taken_of [OF inv] obtain taken where taken: "taken + givenUp s + waits s = acceptedOn L n (calls (shared s))"
      "taken \<le> confirmed s" "confirmQ (shared s) q = unread verdict taken (confirmed s)" .
  have w: "waits s = 1" using g by (auto simp: waits_def)
  have "call_ok L n verdict pub ops s g" using I by blast
  then have sent: "sentAs s g = Some (acceptedOn L n (calls (shared s)), givenUp s)"
    using g by (simp add: call_ok_def)
  have pub: "confirmCh (pubs (shared s) p) = Some q" "pubs (shared s) p = pub" using I by blast+
  have mu: "mu s = Some g" using I g by (metis holding.simps(5))
  let ?t = "s\<lparr>shared := t, phase := (phase s)(g := Unlocking r), givenUp := givenUp s + k\<rparr>"
  have wt: "waits ?t = 0" using waits_moved [OF only, where t = ?t] by simp
  from pub(1) run assms(4) have "publish_inv L p n q verdict pub ops ?t \<and> (e = None \<longrightarrow> k = 0)"
  proof (cases rule: opWait_cases)
    case (took cf cfs)
    then have k: "k = 0" using k by auto
    from unread_Cons taken(3) took(1) have cf: "taken < confirmed s" "cf = \<lparr>DeliveryTag = Suc taken, Ack = verdict (Suc taken)\<rparr>"
      "cfs = unread verdict (Suc taken) (confirmed s)" by metis+
    have "acceptedOn L n (calls (shared s)) - givenUp s = Suc taken" using taken(1) w by simp
    then have "reports verdict pub (ops g) s (acceptedOn L n (calls (shared s))) (givenUp s) r"
      using took(3) cf taken(1) w pub(2) by (simp add: reports_def)
    with k show ?thesis
      using pub mu sent wt took cf taken(1) w
      by (intro conjI impI inv_moved [OF inv only]) (auto simp: call_ok_def reports_def intro: exI [of _ "Suc taken"])
  next
    case gave_up
    with k pub mu sent wt taken w show ?thesis
      by (intro conjI impI inv_moved [OF inv only]) (auto simp: call_ok_def reports_def intro: exI [of _ taken])
  qed
  then show "publish_inv L p n q verdict pub ops (s\<lparr>shared := t, phase := (phase s)(g := Unlocking r), givenUp := givenUp s + k\<rparr>)"
    and "e = None \<Longrightarrow> k = 0" by blast+
qed

lemma holder_facts:
  assumes "publish_inv L p n q verdict pub ops s" and "holding (phase s g)" and "phase t = (phase s)(g := ph)"
  shows "mu s = Some g" and "\<And>h. h \<noteq> g \<Longrightarrow> \<not> holding (phase s h)"
    and "waits s = (if phase s g = Waiting then 1 else 0)" and "waits t = (if ph = Waiting then 1 else 0)"
proof -
  have mutex: "\<forall>g. holding (phase s g) \<longleftrightarrow> mu s = Some g" using assms(1) unfolding publish_inv_def by blast
  with assms(2) show mu: "mu s = Some g" by blast
  show only: "\<And>h. h \<noteq> g \<Longrightarrow> \<not> holding (phase s h)" by (rule only_holder [OF assms(1,2)])
  show "waits s = (if phase s g = Waiting then 1 else 0)" by (rule waits_unique [OF mutex mu])
  show "waits t = (if ph = Waiting then 1 else 0)" by (rule waits_moved [OF only assms(3)])
qed

lemma publishStep_inv:
  assumes inv: "publish_inv L p n q verdict pub ops s" and step: "publishStep L p n q verdict marshal ops s t"
  shows "publish_inv L p n q verdict pub ops t"
proof -
  note I = inv [unfolded publish_inv_def]
  have pub: "pubs (shared s) p = pub" "channel (pubs (shared s) p) = Some (AmqpChannel n)" using I by blast+
  from taken_of [OF inv] obtain taken where taken: "taken + givenUp s + waits s = acceptedOn L n (calls (shared s))"
      "taken \<le> confirmed s" "confirmQ (shared s) q = unread verdict taken (confirmed s)" .
  have ok: "call_ok L n verdict pub ops s g" for g using I by blast
  note facts = holder_facts [OF inv, where t = t]
  from step show ?thesis
  proof cases
    case (lock g)
    have only: "\<not> holding (phase s h)" for h using I lock(3) by simp
    have "waits t = 0" using waits_moved [OF only, where t = t] lock(1) by simp
    moreover have "waits s = 0" by (rule waits_none [OF _ lock(3)]) (use I in blast)
    ultimately show ?thesis
      by (intro inv_moved [OF inv, where g = g and t = t and ph = Locked]) (use only lock pub taken ok [of g] in \<open>auto simp: call_ok_def\<close>)
  next
    case (send g t')
    from facts [of g Waiting] send(1,2) opSend_effect [OF pub(2) send(3)] show ?thesis
      by (intro inv_moved [OF inv, where g = g and t = t and ph = Waiting]) (use send pub taken ok [of g] in \<open>auto simp: call_ok_def\<close>)
  next
    case (notSent g r t')
    from facts [of g "Unlocking r"] notSent(1,2) opSend_effect [OF pub(2) notSent(3)] show ?thesis
      by (intro inv_moved [OF inv, where g = g and t = t and ph = "Unlocking r"])
        (use notSent pub taken ok [of g] in \<open>auto simp: call_ok_def\<close>)
  next
    case confirm
    show ?thesis by (rule inv_unmoved [OF inv]) (use confirm pub in auto)
  next
    case (receive g b r t')
    have "t = s\<lparr>shared := t', phase := (phase s)(g := Unlocking r), givenUp := givenUp s + 0\<rparr>" using receive(1) by simp
    then show ?thesis using wait_inv [OF inv receive(2-4) refl] by simp
  next
    case (unlock g r)
    from facts [of g "Finished r"] unlock(1,2) show ?thesis
      by (intro inv_moved [OF inv, where g = g and t = t and ph = "Finished r"])
        (use unlock pub taken ok [of g] in \<open>auto simp: call_ok_def reports_def split: option.splits\<close>)
  qed
qed

lemma anyStep_inv:
  assumes inv: "publish_inv L p n q verdict pub ops s" and step: "anyStep L p n q verdict marshal ops s t"
  shows "publish_inv L p n q verdict pub ops t"
  using step
proof cases
  case own
  then show ?thesis by (rule publishStep_inv [OF inv])
next
  case (cancelled g e b r t')
  have "confirmCh (pubs (shared s) p) = Some q" using inv unfolding publish_inv_def by blast
  then have "r \<noteq> Blocked" using cancelled(3) by (auto simp: opWait_select split: list.splits if_splits)
  then show ?thesis using wait_inv(1) [OF inv cancelled(2,3) _ refl] cancelled(1) by simp
next
  case (other t')
  have "pubs (shared s) p = pub" "confirmed s \<le> acceptedOn L n (calls (shared s))"
    using inv unfolding publish_inv_def by blast+
  then show ?thesis by (intro inv_unmoved [OF inv]) (use other in auto)
qed

interpretation publishing: guarded_system "anyStep L p n q verdict marshal ops" "publish_inv L p n q verdict pub ops"
  for L p n q verdict pub and marshal :: "'m \<Rightarrow> string + string" and ops
  by unfold_locales (rule anyStep_inv)

text \<open>
  C1: concurrent publishers are told about their own messages. Any number of goroutines publish
  on one publisher, in any interleaving with each other, with the broker and with the rest of the program, and
  some of their contexts may be cancelled. Then only one goroutine at a time is between
  taking the mutex and giving it back, no two messages share a delivery tag, and a call that has returned
  reports: an error, when the broker did not take its message; otherwise the broker's verdict on the message
  sent \<open>k\<close> messages before its own, where \<open>k\<close> is the number of waits that had been given up by then, or that it gave up
  itself. So as long as no wait is given up every call reports the verdict on its own message.
\<close>

theorem concurrent_publish_reports:
  assumes "inSync p n q s0" and "(anyStep L p n q verdict marshal ops)\<^sup>*\<^sup>* (startPublishing L n G s0) s"
    and "phase s g = Finished r"
  shows "(\<forall>h h'. holding (phase s h) \<and> holding (phase s h') \<longrightarrow> h = h')
    \<and> (case sentAs s g of
         None \<Rightarrow> \<exists>e. r = Err e
       | Some (tag, k) \<Rightarrow>
           (\<forall>h tag' k'. sentAs s h = Some (tag', k') \<and> h \<noteq> g \<longrightarrow> tag' \<noteq> tag)
           \<and> ((k < tag \<and> r = (if verdict (tag - k) then Ok () else Err (ErrText (nackText (pubs s0 p) (ops g)))))
              \<or> (\<exists>e. r = Err (ErrWrap (cancelText (ops g)) (ErrText e))))
           \<and> (givenUp s = 0 \<longrightarrow> r = (if verdict tag then Ok () else Err (ErrText (nackText (pubs s0 p) (ops g))))))"
proof -
  have inv: "publish_inv L p n q verdict (pubs s0 p) ops s"
    by (rule publishing.reach_keeps [OF assms(2) start_inv [OF assms(1)]])
  note I = this [unfolded publish_inv_def]
  have ok: "call_ok L n verdict (pubs s0 p) ops s g" using I by blast
  have excl: "\<forall>h h'. holding (phase s h) \<and> holding (phase s h') \<longrightarrow> h = h'" using I by (metis option.inject)
  show ?thesis
  proof (cases "sentAs s g")
    case None
    with ok excl assms(3) show ?thesis by (simp add: call_ok_def)
  next
    case (Some sent)
    obtain tag k where sent: "sentAs s g = Some (tag, k)" using Some by (cases sent) simp
    have "reports verdict (pubs s0 p) (ops g) s tag k r" using ok assms(3) sent by (simp add: call_ok_def)
    moreover have "k \<le> givenUp s" using sent I by blast
    moreover have "\<forall>h tag' k'. sentAs s h = Some (tag', k') \<and> h \<noteq> g \<longrightarrow> tag' \<noteq> tag" using sent I by blast
    ultimately show ?thesis using excl unfolding sent option.case prod.case reports_def by (intro conjI) auto
  qed
qed

text \<open>One goroutine publishes from beginning to end while another waits for the mutex.\<close>

definition demoOps :: "nat \<Rightarrow> string publishOp" where
  "demoOps g = RawOp Background ''k'' ''1'' []"

lemma demo_run:
  "\<exists>s. (publishStep demoLib 0 0 0 (\<lambda>_. True) Inr demoOps)\<^sup>*\<^sup>* (startPublishing demoLib 0 {0, 1} demoIO) s
     \<and> phase s 0 = Finished (Ok ()) \<and> phase s 1 = Calling \<and> sentAs s 0 = Some (1, 0) \<and> givenUp s = 0 \<and> mu s = None"
proof -
  let ?step = "publishStep demoLib 0 0 0 (\<lambda>_. True) Inr demoOps"
  define s0 where "s0 = startPublishing demoLib 0 {0, 1} demoIO"
  define s1 where "s1 = s0\<lparr>mu := Some 0, phase := (phase s0)(0 := Locked)\<rparr>"
  define t where "t = demoIO\<lparr>calls := [rawCall demoLib (pubs demoIO 0) Background ''k'' ''1'' [] 0]\<rparr>"
  define s2 where "s2 = s1\<lparr>shared := t, phase := (phase s1)(0 := Waiting), sentAs := (sentAs s1)(0 := Some (acceptedOn demoLib 0 (calls t), givenUp s1))\<rparr>"
  define cf where "cf = \<lparr>DeliveryTag = Suc (confirmed s2), Ack = True\<rparr>"
  define s3 where "s3 = s2\<lparr>shared := (shared s2)\<lparr>confirmQ := (confirmQ (shared s2))(0 := confirmQ (shared s2) 0 @ [cf])\<rparr>,
    confirmed := Suc (confirmed s2)\<rparr>"
  define s4 where "s4 = s3\<lparr>shared := (shared s3)\<lparr>confirmQ := (confirmQ (shared s3))(0 := [])\<rparr>, phase := (phase s3)(0 := Unlocking (Ok ()))\<rparr>"
  define s5 where "s5 = s4\<lparr>mu := None, phase := (phase s4)(0 := Finished (Ok ()))\<rparr>"
  note defs = s0_def s1_def s2_def s3_def s4_def s5_def t_def cf_def startPublishing_def demoOps_def
  have acc: "acceptedOn demoLib 0 (calls t) = 1" "acceptedOn demoLib 0 [] = 0"
    using acceptedOn_snoc [of demoLib 0 "[]"] by (simp_all add: t_def rawCall_def acceptedOn_def)
  have a: "?step s0 s1" unfolding s1_def by (rule lock) (simp_all add: s0_def startPublishing_def)
  have b: "?step s1 s2" unfolding s2_def
    by (rule send) (simp_all add: defs bindM_run getM_run wrapM_run channel_op_defs invoke_run rawCall_def)
  have c: "?step s2 s3" unfolding s3_def cf_def
    using publishStep.confirm [of s2 demoLib 0 0 0 "\<lambda>_. True" Inr demoOps] acc by (simp add: s0_def s1_def s2_def startPublishing_def)
  have d: "?step s3 s4" unfolding s4_def
    by (rule receive [where b = True]) (simp_all add: defs opWait_select)
  have e: "?step s4 s5" unfolding s5_def by (rule unlock) (simp add: s4_def)
  note first = converse_rtranclp_into_rtranclp [where r = ?step]
  have "?step\<^sup>*\<^sup>* s0 s5" by (rule first [OF a first [OF b first [OF c first [OF d first [OF e rtranclp.rtrancl_refl]]]]])
  then show ?thesis unfolding s0_def [symmetric]
    by (intro exI [of _ s5] conjI) (simp_all add: s5_def s4_def s3_def s2_def s1_def acc, simp_all add: s0_def startPublishing_def)
qed

theorem concurrent_publish_reports_witness:
  "\<exists>s. (publishStep demoLib 0 0 0 (\<lambda>_. True) Inr demoOps)\<^sup>*\<^sup>* (startPublishing demoLib 0 {0, 1} demoIO) s
     \<and> sentAs s 0 = Some (1, 0) \<and> (\<exists>r. phase s 0 = Finished r \<and> r = Ok ())"
proof -
  let ?any = "anyStep demoLib 0 0 0 (\<lambda>_. True) Inr demoOps" and ?start = "startPublishing demoLib 0 {0, 1} demoIO"
  from demo_run obtain s where s: "(publishStep demoLib 0 0 0 (\<lambda>_. True) Inr demoOps)\<^sup>*\<^sup>* ?start s"
    "phase s 0 = Finished (Ok ())" "sentAs s 0 = Some (1, 0)" "givenUp s = 0" by blast
  from s(1) have run: "?any\<^sup>*\<^sup>* ?start s" by (rule rtranclp_mono [THEN predicate2D, rotated]) (auto intro: own)
  have sync: "inSync 0 0 0 demoIO" by (simp add: inSync_def)
  from concurrent_publish_reports [OF sync run s(2)] s show ?thesis by auto
qed

end
