(* ===== verification/Publisher_Atomic.thy ===== *)
theory Publisher_Atomic
  imports Publisher_Concurrent
begin

text \<open>
  Two consequences of the mutex of a publisher: concurrent publishes all return when the broker confirms
  (the steps of \<open>publishStep\<close> neither deadlock nor go on for ever), and every interleaving of them has the effect
  and the results of the same calls made one after the other, each in one step, as the rest of the
  development has them.
\<close>

subsection \<open>All calls return\<close>

fun rank :: "phase \<Rightarrow> nat" where
  "rank NoCall = 0"
| "rank Calling = 5"
| "rank Locked = 4"
| "rank Waiting = 2"
| "rank (Unlocking r) = 1"
| "rank (Finished r) = 0"

definition workLeft :: "lib \<Rightarrow> nat \<Rightarrow> nat set \<Rightarrow> publishing_state \<Rightarrow> nat" where
  "workLeft L n G s = (\<Sum>g \<in> G. rank (phase s g)) + (acceptedOn L n (calls (shared s)) - confirmed s)"

definition allReturned :: "publishing_state \<Rightarrow> bool" where
  "allReturned s \<longleftrightarrow> (\<forall>g. phase s g = NoCall \<or> (\<exists>r. phase s g = Finished r))"

text \<open>The calls are those of \<open>G\<close>, and the work left is no more than at the beginning.\<close>

definition calls_of ::
  "lib \<Rightarrow> nat \<Rightarrow> nat \<Rightarrow> nat \<Rightarrow> (nat \<Rightarrow> bool) \<Rightarrow> publisher \<Rightarrow> (nat \<Rightarrow> 'm publishOp) \<Rightarrow> nat set \<Rightarrow> publishing_state \<Rightarrow> bool" where
  "calls_of L p n q verdict pub ops G s \<longleftrightarrow> publish_inv L p n q verdict pub ops s \<and> finite G
     \<and> (\<forall>g. phase s g = NoCall \<longleftrightarrow> g \<notin> G) \<and> workLeft L n G s \<le> 5 * card G"

lemma start_calls:
  assumes "inSync p n q s" and "finite G"
  shows "calls_of L p n q verdict (pubs s p) ops G (startPublishing L n G s)"
  using start_inv [OF assms(1)] assms(2)
  by (simp add: calls_of_def workLeft_def startPublishing_def)

lemma workLeft_moved:
  assumes "finite G" and "g \<in> G" and "phase t = (phase s)(g := ph)"
    and "rank ph + (acceptedOn L n (calls (shared t)) - confirmed t) < rank (phase s g) + (acceptedOn L n (calls (shared s)) - confirmed s)"
  shows "workLeft L n G t < workLeft L n G s"
proof -
  have split: "(\<Sum>h \<in> G. rank (phase u h)) = rank (phase u g) + (\<Sum>h \<in> G - {g}. rank (phase u h))" for u
    using assms(1,2) by (rule sum.remove)
  have same: "(\<Sum>h \<in> G - {g}. rank (phase t h)) = (\<Sum>h \<in> G - {g}. rank (phase s h))"
    by (rule sum.cong) (simp_all add: assms(3))
  have ph: "phase t g = ph" by (simp add: assms(3))
  show ?thesis unfolding workLeft_def split [of s] split [of t] same ph using assms(4) by linarith
qed

lemma publishStep_work:
  assumes "calls_of L p n q verdict pub ops G s" and step: "publishStep L p n q verdict marshal ops s t"
  shows "workLeft L n G t < workLeft L n G s" and "\<forall>g. phase t g = NoCall \<longleftrightarrow> g \<notin> G"
proof -
  have inv: "publish_inv L p n q verdict pub ops s" and G: "finite G" "\<And>g. phase s g = NoCall \<longleftrightarrow> g \<notin> G"
    using assms(1) by (auto simp: calls_of_def)
  have chan: "channel (pubs (shared s) p) = Some (AmqpChannel n)" "confirmCh (pubs (shared s) p) = Some q"
    and le: "confirmed s \<le> acceptedOn L n (calls (shared s))" using inv unfolding publish_inv_def by blast+
  have moved: "workLeft L n G t < workLeft L n G s \<and> (\<forall>g. phase t g = NoCall \<longleftrightarrow> g \<notin> G)"
    if "phase s g \<noteq> NoCall" "phase t = (phase s)(g := ph)" "ph \<noteq> NoCall"
      "rank ph + (acceptedOn L n (calls (shared t)) - confirmed t) < rank (phase s g) + (acceptedOn L n (calls (shared s)) - confirmed s)"
    for g ph
    using workLeft_moved [OF G(1) _ that(2,4)] that(1-3) G(2) by (auto split: if_splits)
  from step have "workLeft L n G t < workLeft L n G s \<and> (\<forall>g. phase t g = NoCall \<longleftrightarrow> g \<notin> G)"
  proof cases
    case (lock g)
    then show ?thesis by (intro moved [of g Locked]) simp_all
  next
    case (send g t')
    then show ?thesis using opSend_effect(3) [OF chan(1) send(3)] le by (intro moved [of g Waiting]) simp_all
  next
    case (notSent g r t')
    then show ?thesis using opSend_effect(3) [OF chan(1) notSent(3)] by (intro moved [of g "Unlocking r"]) simp_all
  next
    case confirm
    then show ?thesis using G(2) by (simp add: workLeft_def)
  next
    case (receive g b r t')
    have "calls t' = calls (shared s)"
      using receive(3,4) chan(2) by (auto simp: opWait_select split: list.splits if_splits)
    then show ?thesis using receive(1,2) by (intro moved [of g "Unlocking r"]) simp_all
  next
    case (unlock g r)
    then show ?thesis by (intro moved [of g "Finished r"]) simp_all
  qed
  then show "workLeft L n G t < workLeft L n G s" and "\<forall>g. phase t g = NoCall \<longleftrightarrow> g \<notin> G" by blast+
qed

lemma calls_step:
  assumes "calls_of L p n q verdict pub ops G s" and "publishStep L p n q verdict marshal ops s t"
  shows "calls_of L p n q verdict pub ops G t"
  using assms publishStep_work [OF assms] publishStep_inv [OF _ assms(2)] by (auto simp: calls_of_def)

text \<open>
  The goroutine that holds the mutex can go on; when it waits there is a confirmation for it, or the
  broker can send one.
\<close>

lemma locked_progress:
  assumes "publish_inv L p n q verdict pub ops s" and "phase s g = Locked"
  shows "\<exists>t. publishStep L p n q verdict marshal ops s t"
proof -
  have chan: "channel (pubs (shared s) p) = Some (AmqpChannel n)" using assms(1) unfolding publish_inv_def by blast
  obtain r t where run: "opSend L p marshal (ops g) (shared s) = (r, t)" by fastforce
  from opSend_effect(4) [OF chan run] show ?thesis
  proof
    assume "r = Ok ()"
    with send [where ops = ops and g = g, OF assms(2)] run show ?thesis by blast
  next
    assume "\<exists>e. r = Err e"
    then have "r \<noteq> Ok ()" "r \<noteq> Blocked" by auto
    with notSent [where ops = ops and g = g, OF assms(2) run] show ?thesis by blast
  qed
qed

lemma waiting_progress:
  assumes inv: "publish_inv L p n q verdict pub ops s" and "phase s g = Waiting"
  shows "\<exists>t. publishStep L p n q verdict marshal ops s t"
proof (cases "confirmQ (shared s) q")
  case Nil
  from taken_of [OF inv] obtain taken where taken: "taken + givenUp s + waits s = acceptedOn L n (calls (shared s))"
    "taken \<le> confirmed s" "confirmQ (shared s) q = unread verdict taken (confirmed s)" .
  have "taken = confirmed s" using Nil taken(2,3) by (auto simp: unread_def)
  moreover have "waits s = 1" using assms(2) by (auto simp: waits_def)
  ultimately have "confirmed s < acceptedOn L n (calls (shared s))" using taken(1) by linarith
  then show ?thesis using confirm by blast
next
  case (Cons cf cfs)
  have "confirmCh (pubs (shared s) p) = Some q" using inv unfolding publish_inv_def by blast
  then have "fst (opWait (selecting L None True) p (ops g) (shared s)) \<noteq> Blocked" using Cons by (simp add: opWait_select)
  then show ?thesis using receive [OF assms(2)] by (metis prod.collapse)
qed

lemma publish_progress:
  assumes "calls_of L p n q verdict pub ops G s" and "\<not> allReturned s"
  shows "\<exists>t. publishStep L p n q verdict marshal ops s t"
proof -
  have inv: "publish_inv L p n q verdict pub ops s" using assms(1) by (auto simp: calls_of_def)
  note I = this [unfolded publish_inv_def]
  show ?thesis
  proof (cases "mu s")
    case None
    obtain g where "phase s g \<noteq> NoCall" "\<nexists>r. phase s g = Finished r" using assms(2) by (auto simp: allReturned_def)
    moreover have "\<not> holding (phase s g)" using I None by simp
    ultimately have "phase s g = Calling" by (cases "phase s g") auto
    then show ?thesis using lock None by blast
  next
    case (Some g)
    then have "holding (phase s g)" using I by blast
    then show ?thesis
      using locked_progress [OF inv, of g] waiting_progress [OF inv, of g] by (cases "phase s g") (auto intro: unlock)
  qed
qed

interpretation publish_run: progressing_system "publishStep L p n q verdict marshal ops"
    "calls_of L p n q verdict pub ops G" allReturned "workLeft L n G"
  for L p n q verdict pub and marshal :: "'m \<Rightarrow> string + string" and ops G
  by unfold_locales (auto intro: calls_step publish_progress publishStep_work(1))

text \<open>
  C8: concurrent publishes return. For finitely many calls on a publisher in confirm mode, after any
  steps of the calls and the broker: as long as some call has not returned, a goroutine or the broker can
  take a step; no sequence of such steps is longer than five for each call; so all calls return.
\<close>

theorem concurrent_publishes_return:
  assumes "inSync p n q s0" and "finite G"
    and "(publishStep L p n q verdict marshal ops)\<^sup>*\<^sup>* (startPublishing L n G s0) s"
  shows "(allReturned s \<or> (\<exists>t. publishStep L p n q verdict marshal ops s t))
    \<and> (\<forall>k t. (publishStep L p n q verdict marshal ops ^^ k) s t \<longrightarrow> k \<le> 5 * card G)
    \<and> (\<exists>t. (publishStep L p n q verdict marshal ops)\<^sup>*\<^sup>* s t \<and> allReturned t)"
proof -
  have inv: "calls_of L p n q verdict (pubs s0 p) ops G s"
    by (rule publish_run.reach_keeps [OF assms(3) start_calls [OF assms(1,2)]])
  then have "workLeft L n G s \<le> 5 * card G" by (simp add: calls_of_def)
  moreover have "k \<le> workLeft L n G s" if "(publishStep L p n q verdict marshal ops ^^ k) s t" for k t
    using publish_run.run_bounded [OF that inv] by simp
  ultimately show ?thesis
    using publish_run.progress [OF inv] publish_run.run_completes [OF inv] by (meson le_trans)
qed

theorem concurrent_publishes_return_witness:
  "\<exists>t. (publishStep demoLib 0 0 0 (\<lambda>_. True) Inr demoOps)\<^sup>*\<^sup>* (startPublishing demoLib 0 {0, 1} demoIO) t \<and> allReturned t"
proof -
  have sync: "inSync 0 0 0 demoIO" by (simp add: inSync_def)
  have "finite {0 :: nat, 1}" by simp
  from concurrent_publishes_return [OF sync this rtranclp.rtrancl_refl, of demoLib "\<lambda>_. True" Inr demoOps]
  show ?thesis by blast
qed


subsection \<open>Each call as one step\<close>

text \<open>The broker confirms every message while its publisher waits, with the given verdicts.\<close>

definition confirms_with :: "lib \<Rightarrow> nat \<Rightarrow> nat \<Rightarrow> (nat \<Rightarrow> bool) \<Rightarrow> bool" where
  "confirms_with L n q verdict \<longleftrightarrow>
     (\<forall>h call. isPublishOn n call \<and> amqpErr L h call = None \<longrightarrow>
        arrivals L (h @ [call]) q = [\<lparr>DeliveryTag = acceptedOn L n (h @ [call]), Ack = verdict (acceptedOn L n (h @ [call]))\<rparr>])"

lemma confirms_with_in_order: "confirms_with L n q verdict \<Longrightarrow> confirms_in_order L n q"
  by (auto simp: confirms_with_def confirms_in_order_def)

text \<open>How far the call in progress has got, from the state \<open>u\<close> in which the calls before it left off.\<close>

definition inProgress ::
  "lib \<Rightarrow> nat \<Rightarrow> nat \<Rightarrow> ('m \<Rightarrow> string + string) \<Rightarrow> (nat \<Rightarrow> 'm publishOp) \<Rightarrow> io \<Rightarrow> publishing_state \<Rightarrow> bool" where
  "inProgress L p q marshal ops u s =
     (case mu s of None \<Rightarrow> shared s = u
      | Some g \<Rightarrow> (case phase s g of
          Locked \<Rightarrow> shared s = u
        | Waiting \<Rightarrow> (\<exists>u1 cfs. opSend L p marshal (ops g) u = (Ok (), u1) \<and> shared s = u1\<lparr>confirmQ := (confirmQ u1)(q := cfs)\<rparr>)
        | Unlocking r \<Rightarrow> runOp L p marshal (ops g) u = (r, shared s)
        | _ \<Rightarrow> False))"

definition returned :: "publishing_state \<Rightarrow> nat \<Rightarrow> unit res option" where
  "returned s g = (case phase s g of Finished r \<Rightarrow> Some r | _ \<Rightarrow> None)"

definition atomic_inv where
  "atomic_inv L p n q verdict marshal ops s0 s \<longleftrightarrow>
     publish_inv L p n q verdict (pubs s0 p) ops s \<and> givenUp s = 0
     \<and> (\<exists>order out u. distinct order \<and> set order = {g. returned s g \<noteq> None} \<and> map (returned s) order = map Some out
          \<and> sendAll (runOp L p marshal) (map ops order) s0 = (out, u) \<and> inProgress L p q marshal ops u s)"

lemma sendAll_snoc:
  "sendAll send (rs @ [r]) s =
    (let (xs, t) = sendAll send rs s; (x, u) = send r t in (xs @ [x], u))"
  by (induction rs arbitrary: s) (auto simp: Let_def split: prod.splits)

text \<open>A step that lets no call return extends the call in progress; a return appends it to the sequence.\<close>

lemma atomic_extend:
  assumes "atomic_inv L p n q verdict marshal ops s0 s" and "publishStep L p n q verdict marshal ops s t"
    and "givenUp t = givenUp s" and "returned t = returned s"
    and "\<And>u. inSync p n q u \<Longrightarrow> inProgress L p q marshal ops u s \<Longrightarrow> inProgress L p q marshal ops u t"
    and sync: "\<And>order out u. sendAll (runOp L p marshal) (map ops order) s0 = (out, u) \<Longrightarrow> inSync p n q u"
  shows "atomic_inv L p n q verdict marshal ops s0 t"
proof -
  from assms(1) obtain order out u where inv: "publish_inv L p n q verdict (pubs s0 p) ops s" "givenUp s = 0"
    and ord: "distinct order" "set order = {g. returned s g \<noteq> None}" "map (returned s) order = map Some out"
      "sendAll (runOp L p marshal) (map ops order) s0 = (out, u)" "inProgress L p q marshal ops u s"
    unfolding atomic_inv_def by blast
  have "inProgress L p q marshal ops u t" by (rule assms(5) [OF sync [OF ord(4)] ord(5)])
  then show ?thesis
    unfolding atomic_inv_def assms(3,4) using publishStep_inv [OF inv(1) assms(2)] inv(2) ord by blast
qed

lemma wait_as_runOp:
  assumes lib: "confirms_with L n q verdict" "never_cancelled L (opCtx op)" and sync: "inSync p n q u"
    and send: "opSend L p marshal op u = (Ok (), u1)" and s: "s = u1\<lparr>confirmQ := (confirmQ u1)(q := cf # cfs)\<rparr>"
    and cf: "cf = \<lparr>DeliveryTag = acceptedOn L n (calls u1), Ack = verdict (acceptedOn L n (calls u1))\<rparr>" "cfs = []"
  shows "runOp L p marshal op u = opWait (selecting L None b) p op s"
proof -
  have pub: "channel (pubs u p) = Some (AmqpChannel n)" "confirmCh (pubs u p) = Some q" "confirmQ u q = []"
    using sync by (simp_all add: inSync_def)
  note e = opSend_effect [OF pub(1) send]
  from e(5) obtain call where call: "calls u1 = calls u @ [call]" "isPublishOn n call" "amqpErr L (calls u) call = None" by blast
  then have arr: "arrivals L (calls u1) q = [cf]" using lib(1) cf(1) by (simp add: confirms_with_def)
  have "runOp L p marshal op u = opWait L p op u1" by (simp add: runOp_phases [OF pub(1)] bindM_run send)
  also have "\<dots> = (if Ack cf then Ok () else Err (ErrText (nackText (pubs u1 p) op)), u1\<lparr>confirmQ := (confirmQ u1)(q := [])\<rparr>)"
    using waitConfirm_uncancelled [of L u1 "opCtx op" q cf "[]"] lib(2) arr e(1,2) pub
    by (simp add: opWait_def bindM_run getM_run never_cancelled_def)
  also have "\<dots> = opWait (selecting L None b) p op s"
    using opWait_select [of s p q L None b op] e(1) pub(2) s cf(2) by simp
  finally show ?thesis .
qed

lemma returned_moved:
  assumes "phase t = (phase s)(g := ph)" and "\<nexists>r. phase s g = Finished r" and "\<nexists>r. ph = Finished r"
  shows "returned t = returned s"
proof
  fix h
  show "returned t h = returned s h" using assms by (cases ph; cases "phase s g") (auto simp: returned_def)
qed

lemma confirm_only_waiting:
  assumes "publish_inv L p n q verdict pub ops s" and "givenUp s = 0" and "confirmed s < acceptedOn L n (calls (shared s))"
  obtains g where "mu s = Some g" "phase s g = Waiting"
proof -
  from taken_of [OF assms(1)] obtain taken where "taken + givenUp s + waits s = acceptedOn L n (calls (shared s))" "taken \<le> confirmed s" .
  with assms(2,3) have "waits s \<noteq> 0" by linarith
  then obtain g where g: "phase s g = Waiting" by (auto simp: waits_def split: if_splits)
  have "mu s = Some g" using assms(1) g unfolding publish_inv_def by (metis holding.simps(5))
  then show thesis using g by (rule that)
qed

lemma own_confirmation:
  assumes inv: "publish_inv L p n q verdict pub ops s" and "givenUp s = 0" and "phase s g = Waiting"
    and "confirmQ (shared s) q \<noteq> []"
  shows "confirmQ (shared s) q = [\<lparr>DeliveryTag = acceptedOn L n (calls (shared s)), Ack = verdict (acceptedOn L n (calls (shared s)))\<rparr>]"
proof -
  from taken_of [OF inv] obtain taken where taken: "taken + givenUp s + waits s = acceptedOn L n (calls (shared s))"
      "taken \<le> confirmed s" "confirmQ (shared s) q = unread verdict taken (confirmed s)" .
  have "waits s = 1" using assms(3) by (auto simp: waits_def)
  moreover have "confirmed s \<le> acceptedOn L n (calls (shared s))" using inv unfolding publish_inv_def by blast
  moreover have "taken \<noteq> confirmed s" using assms(4) taken(3) by auto
  ultimately have "confirmed s = Suc taken" "acceptedOn L n (calls (shared s)) = Suc taken" using assms(2) taken(1,2) by linarith+
  with taken(3) show ?thesis by simp
qed

lemma atomic_return:
  assumes inv: "atomic_inv L p n q verdict marshal ops s0 s" and g: "phase s g = Unlocking r" "mu s = Some g"
    and t: "t = s\<lparr>mu := None, phase := (phase s)(g := Finished r)\<rparr>" "publish_inv L p n q verdict (pubs s0 p) ops t"
  shows "atomic_inv L p n q verdict marshal ops s0 t"
proof -
  from inv obtain order out u where
    ord: "distinct order" "set order = {g. returned s g \<noteq> None}" "map (returned s) order = map Some out"
      "sendAll (runOp L p marshal) (map ops order) s0 = (out, u)" "inProgress L p q marshal ops u s" and zero: "givenUp s = 0"
    unfolding atomic_inv_def by blast
  have run: "runOp L p marshal (ops g) u = (r, shared s)" using ord(5) g by (simp add: inProgress_def)
  have ret: "returned t = (returned s)(g := Some r)" using t(1) by (auto simp: returned_def fun_eq_iff)
  have "g \<notin> set order" using ord(2) g(1) by (simp add: returned_def)
  moreover from this have "map (returned t) order = map (returned s) order" by (auto simp: ret)
  moreover have "set (order @ [g]) = {h. returned t h \<noteq> None}" using ord(2) by (auto simp: ret)
  moreover have "sendAll (runOp L p marshal) (map ops (order @ [g])) s0 = (out @ [r], shared t)"
    using ord(4) run t(1) by (simp add: sendAll_snoc)
  moreover have "inProgress L p q marshal ops (shared t) t" using t(1) by (simp add: inProgress_def)
  ultimately show ?thesis
    using t zero ord(1,3) unfolding atomic_inv_def
    by (intro conjI exI [of _ "order @ [g]"] exI [of _ "out @ [r]"] exI [of _ "shared t"]) (auto simp: returned_def)
qed

text \<open>The received confirmation completes the call in progress.\<close>

lemma receive_completes:
  assumes lib: "confirms_with L n q verdict" "never_cancelled L (opCtx (ops g))"
    and inv: "publish_inv L p n q verdict pub ops s" "givenUp s = 0" and g: "phase s g = Waiting" "mu s = Some g"
    and wait: "opWait (selecting L None b) p (ops g) (shared s) = (r, t)" "r \<noteq> Blocked"
    and u: "inSync p n q u" "inProgress L p q marshal ops u s"
  shows "runOp L p marshal (ops g) u = (r, t)"
proof -
  have chan: "confirmCh (pubs (shared s) p) = Some q" using inv(1) by (simp add: publish_inv_def)
  have "confirmQ (shared s) q \<noteq> []" using wait chan by (auto simp: opWait_select)
  note queue = own_confirmation [OF inv g(1) this]
  from u(2) g obtain u1 cfs where u1: "opSend L p marshal (ops g) u = (Ok (), u1)"
    "shared s = u1\<lparr>confirmQ := (confirmQ u1)(q := cfs)\<rparr>" by (auto simp: inProgress_def)
  from u1(2) queue have "cfs = [\<lparr>DeliveryTag = acceptedOn L n (calls u1), Ack = verdict (acceptedOn L n (calls u1))\<rparr>]" by simp
  from wait_as_runOp [OF lib u(1) u1(1) u1(2) [unfolded this] refl refl, of b] wait(1) show ?thesis by simp
qed

lemma atomic_step:
  assumes lib: "confirms_with L n q verdict" "\<forall>g. never_cancelled L (opCtx (ops g))" and s0: "inSync p n q s0"
    and inv: "atomic_inv L p n q verdict marshal ops s0 s" and step: "publishStep L p n q verdict marshal ops s t"
  shows "atomic_inv L p n q verdict marshal ops s0 t"
proof -
  have pinv: "publish_inv L p n q verdict (pubs s0 p) ops s" and zero: "givenUp s = 0"
    using inv unfolding atomic_inv_def by blast+
  have mu: "mu s = Some g" if "holding (phase s g)" for g using pinv that unfolding publish_inv_def by blast
  have sync: "inSync p n q u" if "sendAll (runOp L p marshal) (map ops order) s0 = (out, u)" for order out u
  proof (rule ops.sendAll_in_sync [OF _ s0 that])
    show "list_all (opAllowed L n q) (map ops order)"
      using lib confirms_with_in_order by (auto simp: list_all_iff opAllowed_def)
  qed
  note extend = atomic_extend [OF inv step _ _ _ sync]
  from step show ?thesis
  proof cases
    case (lock g)
    then show ?thesis by (intro extend returned_moved [where g = g]) (auto simp: inProgress_def)
  next
    case (send g t')
    then show ?thesis using mu [of g]
      by (intro extend returned_moved [where g = g])
        (auto simp: inProgress_def intro!: exI [of _ t'] exI [of _ "confirmQ t' q"])
  next
    case (notSent g r t')
    have "inProgress L p q marshal ops u t" if "inSync p n q u" "inProgress L p q marshal ops u s" for u
    proof -
      have "channel (pubs u p) = Some (AmqpChannel n)" using that(1) by (simp add: inSync_def)
      from opSend_effect(4) [OF this, of L marshal "ops g"] runOp_phases [OF this, of L marshal "ops g"] notSent that(2) mu [of g]
      show ?thesis by (cases r) (simp_all add: inProgress_def bindM_run)
    qed
    with notSent show ?thesis by (intro extend returned_moved [where g = g]) auto
  next
    case confirm
    from confirm_only_waiting [OF pinv zero confirm(2)] obtain g where g: "mu s = Some g" "phase s g = Waiting" .
    have "returned t = returned s" using confirm(1) by (simp add: returned_def fun_eq_iff)
    moreover have "inProgress L p q marshal ops u t" if "inProgress L p q marshal ops u s" for u
      using that g confirm(1) by (auto simp: inProgress_def)
    ultimately show ?thesis using confirm(1) by (intro extend) auto
  next
    case (receive g b r t')
    have "inProgress L p q marshal ops u t" if u: "inSync p n q u" "inProgress L p q marshal ops u s" for u
      using receive_completes [OF lib(1) spec [OF lib(2)] pinv zero receive(2) mu receive(3,4) u] receive(1,2) mu [of g]
      by (simp add: inProgress_def)
    with receive(1,2) show ?thesis by (intro extend returned_moved [where g = g]) auto
  next
    case (unlock g r)
    then show ?thesis using atomic_return [OF inv unlock(2) mu unlock(1) publishStep_inv [OF pinv step]] by simp
  qed
qed

interpretation publish_atomic: guarded_system "publishStep L p n q verdict marshal ops"
    "\<lambda>s. confirms_with L n q verdict \<and> (\<forall>g. never_cancelled L (opCtx (ops g))) \<and> inSync p n q s0
       \<and> atomic_inv L p n q verdict marshal ops s0 s"
  for L p n q verdict s0 and marshal :: "'m \<Rightarrow> string + string" and ops
  by unfold_locales (blast intro: atomic_step)

text \<open>
  C5: the mutex makes a publish one step. Let the broker confirm every message with some verdict and
  no context be cancelled. Whenever no call is in progress, after any interleaving of the calls of any number of goroutines
  and of the broker's confirmations, the calls that have returned can be put in an order such
  that making them one after the other, each as the one step that \<open>Publish\<close> and \<open>PublishRaw\<close> are in this
  development, gives the same results and leaves the same state.
\<close>

theorem concurrent_publishes_are_sequential:
  assumes "confirms_with L n q verdict" and "\<forall>g. never_cancelled L (opCtx (ops g))" and "inSync p n q s0"
    and "(publishStep L p n q verdict marshal ops)\<^sup>*\<^sup>* (startPublishing L n G s0) s" and "mu s = None"
  shows "\<exists>order out. distinct order \<and> set order = {g. \<exists>r. phase s g = Finished r}
    \<and> map (phase s) order = map Finished out
    \<and> sendAll (runOp L p marshal) (map ops order) s0 = (out, shared s)"
proof -
  let ?start = "startPublishing L n G s0"
  have "atomic_inv L p n q verdict marshal ops s0 ?start"
    unfolding atomic_inv_def
    by (intro conjI start_inv assms(3) exI [of _ "[]"] exI [of _ s0])
      (auto simp: startPublishing_def returned_def inProgress_def)
  with publish_atomic.reach_keeps [OF assms(4), of s0] assms(1-3) have "atomic_inv L p n q verdict marshal ops s0 s" by blast
  then obtain order out where ord: "distinct order" "set order = {g. returned s g \<noteq> None}" "map (returned s) order = map Some out"
      "sendAll (runOp L p marshal) (map ops order) s0 = (out, shared s)"
    using assms(5) by (auto simp: atomic_inv_def inProgress_def)
  have fin: "returned s g = Some r \<longleftrightarrow> phase s g = Finished r" for g r by (auto simp: returned_def split: phase.splits)
  have "set order = {g. \<exists>r. phase s g = Finished r}" using ord(2) by (simp add: fin)
  moreover have "map (phase s) order = map Finished out"
    using ord(3) by (auto simp: list_eq_iff_nth_eq fin)
  ultimately show ?thesis using ord(1,4) by blast
qed

theorem concurrent_publishes_are_sequential_witness:
  "\<exists>s order out. (publishStep demoLib 0 0 0 (\<lambda>_. True) Inr demoOps)\<^sup>*\<^sup>* (startPublishing demoLib 0 {0, 1} demoIO) s
     \<and> phase s 0 = Finished (Ok ()) \<and> phase s 1 = Calling \<and> 0 \<in> set order \<and> 1 \<notin> set order
     \<and> sendAll (runOp demoLib 0 Inr) (map demoOps order) demoIO = (out, shared s)"
proof -
  have with_ok: "confirms_with demoLib 0 0 (\<lambda>_. True)" by (simp add: confirms_with_def demoLib_accepted)
  have nc: "\<forall>g. never_cancelled demoLib (opCtx (demoOps g))" by (simp add: never_cancelled_def)
  have sync: "inSync 0 0 0 demoIO" by (simp add: inSync_def)
  from demo_run obtain s where s: "(publishStep demoLib 0 0 0 (\<lambda>_. True) Inr demoOps)\<^sup>*\<^sup>* (startPublishing demoLib 0 {0, 1} demoIO) s"
    "phase s 0 = Finished (Ok ())" "phase s 1 = Calling" "mu s = None" by blast
  from concurrent_publishes_are_sequential [OF with_ok nc sync s(1,4)] obtain order out where
    "set order = {g. \<exists>r. phase s g = Finished r}" "sendAll (runOp demoLib 0 Inr) (map demoOps order) demoIO = (out, shared s)" by blast
  with s show ?thesis by (intro exI [of _ s] exI [of _ order] exI [of _ out]) simp
qed

end
