(* ===== verification/Totality.thy ===== *)
theory Totality
  imports Topology_Export
begin

text \<open>
  Starting a connection returns. In Go a call can also panic (here on a nil channel, connection,
  registry or logger) or wait forever; the model has both as results. \<open>totalIn\<close> says that a computation started in
  a ready world does neither and leaves the world ready; it is closed under the ways in
  which the setup code composes its steps, so that the setup functions of the library, \<open>Start\<close> and
  \<open>CollectTopology\<close> inherit it. The loops over setup functions and consumers are structural recursions.
\<close>

definition ready :: "world \<Rightarrow> bool" where
  "ready w \<longleftrightarrow> setupChannel (conn w) \<noteq> None \<and> connection (conn w) \<noteq> None \<and> registry w \<noteq> None
     \<and> logger (conn w) \<noteq> None"

fun returned :: "'a res \<Rightarrow> bool" where
  "returned (Ok a) = True"
| "returned (Err e) = True"
| "returned r = False"

definition totalIn :: "(world \<Rightarrow> bool) \<Rightarrow> (world, 'a) M \<Rightarrow> bool" where
  "totalIn P m \<longleftrightarrow> (\<forall>w. P w \<longrightarrow> returned (fst (m w)) \<and> P (snd (m w)))"

named_theorems total_rules

lemma totalD: "totalIn P m \<Longrightarrow> P w \<Longrightarrow> m w = (r, w') \<Longrightarrow> returned r \<and> P w'"
  by (metis totalIn_def fst_conv snd_conv)

lemma total_bind [total_rules]:
  assumes "totalIn P m" and "\<And>a. totalIn P (f a)"
  shows "totalIn P (bindM m f)"
  unfolding totalIn_def
proof (intro allI impI)
  fix w assume P: "P w"
  obtain r w' where m: "m w = (r, w')" by fastforce
  from totalD [OF assms(1) P m] assms(2) show "returned (fst (bindM m f w)) \<and> P (snd (bindM m f w))"
    by (cases r) (auto simp: bindM_run m totalIn_def)
qed

lemma total_simple [total_rules]: "totalIn P (returnM a)" "totalIn P (failM e)" "totalIn P (getM g)"
  by (simp_all add: totalIn_def returnM_run failM_run getM_run)

lemma total_wrap [total_rules]: "totalIn P m \<Longrightarrow> totalIn P (wrapM p m)"
  by (auto simp: totalIn_def wrapM_run split: prod.split res.split)

lemma total_forM: "(\<And>x. x \<in> set xs \<Longrightarrow> totalIn P (f x)) \<Longrightarrow> totalIn P (forM f xs)"
  by (induction xs) (auto intro: total_rules)

text \<open>Steps on the shared state return when the AMQP library is called on a channel that is there.\<close>

lemma total_liftW:
  assumes "\<And>s. returned (fst (m s)) \<and> core (snd (m s)) = core s"
  shows "totalIn ready (liftW m)"
  using assms by (auto simp: totalIn_def ready_def liftW_run split: prod.split) (metis fst_conv snd_conv)+

lemma total_channel_ops [total_rules]:
  "totalIn ready (liftW (chClose L (Some ch)))" "totalIn ready (liftW (exchangeDeclare L (Some ch) name kind))"
  "totalIn ready (liftW (queueDeclare L (Some ch) cfg))" "totalIn ready (liftW (chQueueBind L (Some ch) q k e nw t))"
  "totalIn ready (liftW (chConsume L (Some ch) q k b1 b2 b3 b4 ot))" "totalIn ready (liftW (uuidNew L))"
  unfolding channel_op_defs exchangeDeclare_def queueDeclare_def
  by (rule total_liftW; cases ch; auto simp: returnM_run invoke_run uuidNew_run split: option.split)+

lemma connChannel_returns: "returned (fst (connChannel L (Some cn) s)) \<and> core (snd (connChannel L (Some cn) s)) = core s"
  by (cases cn) (auto simp: connChannel_def noopConnection_channel_def returnM_run amqpConn_channel_run Let_def split: option.split)

lemma total_connChannel [total_rules]: "totalIn ready (liftW (connChannel L (Some cn)))"
  by (intro total_liftW connChannel_returns)

lemma total_onCore [total_rules]:
  "(\<And>c. setupChannel (f c) = setupChannel c \<and> connection (f c) = connection c \<and> (logger c \<noteq> None \<longrightarrow> logger (f c) \<noteq> None))
    \<Longrightarrow> totalIn ready (onCore f)"
  by (simp add: totalIn_def ready_def onCore_run)

lemma total_useLogger [total_rules]: "totalIn ready useLogger"
  by (auto simp: totalIn_def ready_def)

lemma total_getConn [total_rules]:
  assumes "\<And>c ch cn. setupChannel c = Some ch \<Longrightarrow> connection c = Some cn \<Longrightarrow> totalIn ready (f c)"
  shows "totalIn ready (bindM (getM conn) f)"
  using assms by (auto simp: totalIn_def ready_def bindM_run getM_run)

lemma total_addEndpoint [total_rules]: "totalIn ready (addEndpoint ep)"
  unfolding addEndpoint_def by (rule total_onCore) simp

lemma total_registerHandler [total_rules]: "totalIn ready (registerHandler L q rk h)"
  by (auto simp: totalIn_def ready_def registerHandler_def split: option.splits prod.splits)

lemma Publisher_setup_returns:
  "returned (fst (Publisher_setup L p (Some ch) svc ex tr pr nf hs s)) \<and> core (snd (Publisher_setup L p (Some ch) svc ex tr pr nf hs s)) = core s"
  by (cases ch) (auto simp: Publisher_setup_def updPub_def makeConfirmCh_def channel_op_defs run_simps Let_def
      split: option.split)

lemma total_setupPublisher [total_rules]: "totalIn ready (setupPublisher L p ch ex hs)"
  unfolding setupPublisher_def by (intro total_getConn total_liftW Publisher_setup_returns)

lemma total_messageHandlerBind [total_rules]: "totalIn ready (messageHandlerBindQueueToExchange L cfg)"
proof -
  have chan: "totalIn ready (bindM (getM (\<lambda>w. setupChannel (conn w))) f)" if "\<And>ch. totalIn ready (f (Some ch))" for f :: "_ \<Rightarrow> (world, unit) M"
    using that by (auto simp: totalIn_def ready_def bindM_run getM_run)
  show ?thesis unfolding messageHandlerBindQueueToExchange_def
    by (intro total_bind [OF total_registerHandler chan] total_bind total_channel_ops total_useLogger)
qed

lemma total_bindConsumer [total_rules]: "totalIn ready (bindConsumer L config ep)"
  unfolding bindConsumer_def by (cases config) (auto intro: total_rules)


subsection \<open>The setup functions of the library\<close>

definition total_setup :: "setupFn \<Rightarrow> bool" where
  "total_setup f \<longleftrightarrow> totalIn ready (runSetup f)"

lemma total_publishers [simp]:
  "total_setup (StreamPublisher L exch p)" "total_setup (EventStreamPublisher L p)"
  "total_setup (ServicePublisher L target p)" "total_setup (QueuePublisher L p q)"
  unfolding total_setup_def StreamPublisher_def EventStreamPublisher_def ServicePublisher_def QueuePublisher_def packageSetup_def
    Let_def setupFn.simps
  by (rule total_getConn; (simp only: option.simps)?; intro total_bind total_wrap total_channel_ops total_connChannel total_addEndpoint total_setupPublisher
      total_useLogger)+

lemma total_consumers [simp]:
  "total_setup (StreamConsumer L exch rk T h opts)" "total_setup (EventStreamConsumer L rk T h opts)"
  "total_setup (TransientStreamConsumer L exch rk T h opts)" "total_setup (TransientEventStreamConsumer L rk T h opts)"
  "total_setup (ServiceResponseConsumer L target rk T h opts)" "total_setup (ServiceRequestConsumer L rk T h opts)"
  unfolding total_setup_def StreamConsumer_def EventStreamConsumer_def TransientStreamConsumer_def TransientEventStreamConsumer_def
    ServiceResponseConsumer_def ServiceRequestConsumer_def packageSetup_def Let_def setupFn.simps
  by (rule total_getConn; (simp only: option.simps)?; intro total_bind total_wrap total_channel_ops total_bindConsumer)+

lemma total_RequestResponseHandler [simp]: "total_setup (RequestResponseHandler L rk T marshal rh)"
  using total_consumers(6) unfolding total_setup_def RequestResponseHandler_def packageSetup_def setupFn.simps by blast

lemma total_options [simp]:
  "total_setup (WithTracing tp)" "total_setup (WithPrefetchLimit limit)"
  "total_setup (WithNotificationChannel ch)" "total_setup (WithErrorChannel ch')"
  "total_setup (WithPropagator pr)" "total_setup (WithSpanNameFn f)" "total_setup (WithPublishSpanNameFn g)"
  "total_setup WithLegacySupport" "total_setup (CloseListener l)"
  unfolding total_setup_def WithTracing_def WithPrefetchLimit_def WithNotificationChannel_def WithErrorChannel_def
    WithPropagator_def WithSpanNameFn_def WithPublishSpanNameFn_def WithLegacySupport_def CloseListener_def coreSetup_def setupFn.simps
  by (rule total_onCore; simp)+

lemma total_WithLogger [simp]: "total_setup (WithLogger lg) \<longleftrightarrow> lg \<noteq> None"
proof (cases lg)
  case None
  have "\<exists>w. ready w"
    by (rule exI [of _ "\<lparr>wio = undefined\<lparr>core := (undefined :: connCore)\<lparr>setupChannel := Some NoopChannel, connection := Some NoopConnection,
      logger := Some slogDefault\<rparr>\<rparr>, registry = Some newQueueConsumers, loops = []\<rparr>"]) (simp add: ready_def)
  then show ?thesis by (simp add: None total_setup_def WithLogger_def totalIn_def panicM_run)
next
  case (Some l)
  then show ?thesis unfolding total_setup_def WithLogger_def setupFn.simps option.simps by (simp add: total_onCore)
qed

lemma total_runSetups:
  "list_all total_setup fs \<Longrightarrow> totalIn ready (runSetups fs)" "list_all total_setup fs \<Longrightarrow> totalIn ready (forM runSetup fs)"
  unfolding runSetups_def by (rule total_forM; auto simp: list_all_iff total_setup_def intro: total_wrap)+


subsection \<open>Start and CollectTopology\<close>

lemma total_updConsumer [total_rules]: "totalIn ready (updConsumer q f)"
  by (simp add: totalIn_def ready_def updConsumer_def putM_run)

lemma total_startConsumer: "totalIn ready (startConsumer L entry)"
  unfolding startConsumer_def Let_def queueConsumer_consume_def prod.case
  by (rule total_getConn; (simp only: option.simps)?; intro total_bind total_wrap total_updConsumer total_connChannel total_channel_ops total_onCore
      total_useLogger)
    (simp_all add: totalIn_def ready_def putM_run)

lemma total_startConsumers: "totalIn ready (startConsumers L)"
  using total_forM [of _ ready "startConsumer L", OF total_startConsumer]
  by (auto simp: totalIn_def ready_def startConsumers_def split: option.split)

lemma total_notifyConnectionClose: "totalIn ready notifyConnectionClose"
  unfolding notifyConnectionClose_def
  by (rule total_getConn) (auto simp: totalIn_def ready_def liftW_run bindM_run recordCall_def putM_run returnM_run
      split: option.split amqpConnection.split)

text \<open>What a run returned from, and where it ended when it returned nil.\<close>

definition endsIn :: "(world \<Rightarrow> bool) \<Rightarrow> 'a res \<times> world \<Rightarrow> bool" where
  "endsIn Q x \<longleftrightarrow> returned (fst x) \<and> ((\<exists>a. fst x = Ok a) \<longrightarrow> Q (snd x))"

lemma endsIn_bind:
  assumes "endsIn P (m w)" and "\<And>a w'. P w' \<Longrightarrow> endsIn Q (f a w')"
  shows "endsIn Q (bindM m f w)"
  using assms by (cases "m w"; cases "fst (m w)") (auto simp: bindM_run endsIn_def)

lemma endsIn_total: "totalIn P m \<Longrightarrow> P w \<Longrightarrow> endsIn P (m w)"
  by (simp add: totalIn_def endsIn_def)

text \<open>Opening the response channel and the setup channel, on a connection that is there.\<close>

definition dialled_world :: "world \<Rightarrow> bool" where
  "dialled_world w \<longleftrightarrow> connection (conn w) \<noteq> None \<and> registry w \<noteq> None \<and> logger (conn w) \<noteq> None"

lemma openResponse_returns:
  assumes "dialled_world w"
  shows "endsIn (\<lambda>w'. dialled_world w' \<and> responseChannel (conn w') \<noteq> None)
    (channelInto L (\<lambda>ch c. c\<lparr>responseChannel := ch\<rparr>) (returnM ()) what w)"
proof -
  from assms obtain cn where cn: "connection (conn w) = Some cn" by (auto simp: dialled_world_def)
  obtain r0 s where run: "connChannel L (Some cn) (wio w) = (r0, s)" by fastforce
  with connChannel_returns [of L cn "wio w"] have s: "returned r0" "core s = core (wio w)" by simp_all
  from assms run s cn show ?thesis
    by (cases r0) (auto simp: endsIn_def dialled_world_def channelInto_def liftW_run onCore_run bindM_run returnM_run failM_run)
qed

lemma openSetup_returns:
  assumes "dialled_world w" "responseChannel (conn w) \<noteq> None"
  shows "endsIn ready (channelInto L (\<lambda>ch c. c\<lparr>setupChannel := ch\<rparr>)
      (bindM (getM conn) (\<lambda>c. thenM (liftW (tryM (chClose L (responseChannel c)))) (returnM ()))) what w)"
proof -
  from assms obtain cn rc where cn: "connection (conn w) = Some cn" "responseChannel (conn w) = Some rc"
    by (auto simp: dialled_world_def)
  obtain r0 s where run: "connChannel L (Some cn) (wio w) = (r0, s)" by fastforce
  with connChannel_returns [of L cn "wio w"] have s: "returned r0" "core s = core (wio w)" by simp_all
  have close: "fst (thenM (bindM (getM conn) (\<lambda>c. thenM (liftW (tryM (chClose L (responseChannel c)))) (returnM ()))) (failM e) v) = (Err e :: unit res)"
    if "responseChannel (conn v) = Some rc" for v e
    using that by (cases rc) (auto simp: bindM_run getM_run liftW_run tryM_run channel_op_defs invoke_run returnM_run failM_run split: option.split)
  show ?thesis
  proof (cases r0)
    case (Ok ch)
    with assms run s cn show ?thesis by (auto simp: endsIn_def dialled_world_def channelInto_def liftW_run onCore_run ready_def)
  next
    case (Err e)
    let ?v = "w\<lparr>wio := s\<lparr>core := (conn w)\<lparr>setupChannel := None\<rparr>\<rparr>\<rparr>"
    from close [of ?v "ErrWrap what e"] cn(2) cn(1) run s(2) Err show ?thesis
      by (simp add: endsIn_def channelInto_def liftW_run bindM_Ok [OF onCore_run])
  qed (use s(1) in simp_all)
qed

lemma total_closeSetup: "totalIn ready (bindM (getM conn) (\<lambda>c. liftW (chClose L (setupChannel c))))"
  by (rule total_getConn) (simp add: total_channel_ops)

lemma startUp_returns:
  assumes "list_all total_setup opts" and "dialled_world w"
  shows "endsIn ready (startUp L opts w)"
proof -
  have "totalIn ready (thenM (runSetups opts) (thenM (wrapM ''failed to close setup channel: ''
      (bindM (getM conn) (\<lambda>c. liftW (chClose L (setupChannel c))))) (thenM notifyConnectionClose (startConsumers L))))"
    by (rule total_bind [OF total_runSetups(1) [OF assms(1)] total_bind [OF total_wrap [OF total_closeSetup]
          total_bind [OF total_notifyConnectionClose total_startConsumers]]])
  note rest = endsIn_total [OF this]
  have "endsIn dialled_world (useLogger w)" using assms(2) by (auto simp: endsIn_def dialled_world_def)
  then show ?thesis unfolding startUp_def
    by (rule endsIn_bind) (rule endsIn_bind [OF openResponse_returns], assumption, rule endsIn_bind [OF openSetup_returns rest], blast+)
qed

lemma dial_returns:
  "endsIn dialled_world ((if connection (conn w) = None then connectToAmqpURL L else returnM ()) (prepareStart w))"
  by (auto simp: endsIn_def dialled_world_def connectToAmqpURL_def prepareStart_def run_simps returnM_run split: option.split)

text \<open>
  C25: starting never hangs and never panics. With setup functions of the library (all of them are total, except
  \<open>WithLogger\<close> of a nil logger, which panics, and nothing else uses a nil logger), in
  every state of the connection and whatever the AMQP library answers, \<open>Start\<close> returns nil or an
  error, and so does \<open>CollectTopology\<close>.
\<close>

theorem Start_returns:
  assumes "list_all total_setup opts"
  shows "returned (fst (Start L opts w)) \<and> returned (fst (CollectTopology svc opts s))
    \<and> (total_setup (WithLogger lg) \<longleftrightarrow> lg \<noteq> None) \<and> fst (runSetup (WithLogger None) w) = Panic nilDereference"
proof (intro conjI)
  have "endsIn ready (thenM (onCore (\<lambda>c. c\<lparr>started := True\<rparr>)) useLogger v)" if "ready v" for v
    using that by (intro endsIn_total total_bind total_onCore total_useLogger) simp_all
  moreover have "endsIn ready (thenM (if connection (conn w) = None then connectToAmqpURL L else returnM ()) (startUp L opts) (prepareStart w))"
    by (rule endsIn_bind, rule dial_returns) (rule startUp_returns [OF assms])
  ultimately have "endsIn ready (thenM (thenM (if connection (conn w) = None then connectToAmqpURL L else returnM ()) (startUp L opts))
      (thenM (onCore (\<lambda>c. c\<lparr>started := True\<rparr>)) useLogger) (prepareStart w))"
    by (rule endsIn_bind [rotated])
  then show "returned (fst (Start L opts w))" by (simp add: Start_run endsIn_def)
  have "ready (collectWorld svc s)" by (simp add: ready_def collectWorld_def collectCore_def)
  with total_runSetups(2) [OF assms] have "returned (fst (forM runSetup opts (collectWorld svc s)))" by (simp add: totalIn_def)
  then show "returned (fst (CollectTopology svc opts s))"
    by (auto simp: CollectTopology_def split: prod.split res.split)
qed (rule total_WithLogger, simp add: WithLogger_def panicM_run)

theorem Start_returns_witness:
  "returned (fst (Start refusingLib [WithLogger (Some slogDefault), EventStreamPublisher refusingLib 0] (newWorld ''svc'' ''amqp://h'' freshIO)))"
  using Start_returns [of "[WithLogger (Some slogDefault), EventStreamPublisher refusingLib 0]" refusingLib] by simp

end
