(* ===== verification/Close_Events.thy ===== *)
theory Close_Events
  imports Topology_Export
begin

text \<open>
  What becomes of close events (\<open>connection.go\<close>: the goroutines started by \<open>Start\<close> and by
  \<open>amqpConn.channel\<close>). Only \<open>Start\<close> itself adds a forwarder for the connection, once and after the
  setup functions have run, so a listener given as an option hears of the connection's end.
\<close>

definition connFwds :: "world \<Rightarrow> forwarder list" where
  "connFwds w = filter (\<lambda>f. f = FwdConnection) (forwarders (wio w))"

definition same_fwds :: "world \<Rightarrow> world \<Rightarrow> bool" where
  "same_fwds w w' \<longleftrightarrow> connFwds w' = connFwds w \<and> closeListener (conn w') = closeListener (conn w)
     \<and> connection (conn w') = connection (conn w)"

interpretation same_fwds: effect_rel same_fwds
  by unfold_locales (auto simp: same_fwds_def)

lemma fwdOf_channels_only: "list_all (fwdOf cn) fs \<Longrightarrow> filter (\<lambda>f. f = FwdConnection) fs = []"
  by (induction fs) auto

lemma same_fwds_liftW:
  assumes "\<And>s. filter (\<lambda>f. f = FwdConnection) (forwarders (snd (m s))) = filter (\<lambda>f. f = FwdConnection) (forwarders s)
    \<and> core (snd (m s)) = core s"
  shows "keeps same_fwds (liftW m)"
  using assms by (auto simp: keeps_def same_fwds_def connFwds_def liftW_run split: prod.split) (metis snd_conv)+

lemma connChannel_fwds:
  "filter (\<lambda>f. f = FwdConnection) (forwarders (snd (connChannel L cn s))) = filter (\<lambda>f. f = FwdConnection) (forwarders s)
   \<and> core (snd (connChannel L cn s)) = core s"
proof -
  have "openEffect cn s (snd (connChannel L cn s))" by (rule connChan.effect [OF surjective_pairing])
  then show ?thesis by (auto simp: openEffect_def fwdOf_channels_only)
qed

lemma same_fwds_startConsumers: "keeps same_fwds (startConsumers L)"
proof -
  have upd: "keeps same_fwds (updConsumer q f)" for q f
    by (simp add: updConsumer_def same_fwds.keeps_put same_fwds_def connFwds_def)
  have chans: "keeps same_fwds (onCore (\<lambda>c. c\<lparr>consumerChannels := consumerChannels c @ [ch]\<rparr>))" for ch
    by (simp add: onCore_def same_fwds.keeps_put same_fwds_def connFwds_def)
  have started: "keeps same_fwds (putM (\<lambda>w. w\<lparr>loops := loops w @ [(ch, q)]\<rparr>))" for ch q
    by (simp add: same_fwds.keeps_put same_fwds_def connFwds_def)
  have consume: "keeps same_fwds (liftW (chConsume L (Some ch) q k b1 b2 b3 b4 ot))" for ch q k b1 b2 b3 b4 ot
    by (rule same_fwds_liftW, cases ch) (simp_all add: channel_op_defs returnM_run invoke_run split: option.split)
  have "keeps same_fwds (startConsumer L entry)" for entry
    unfolding startConsumer_def Let_def queueConsumer_consume_def prod.case
    by (intro same_fwds.keeps_bind same_fwds.keeps_get same_fwds.keeps_wrap upd chans started consume same_fwds_liftW connChannel_fwds
        keeps_useLogger same_fwds.refl)
  then show ?thesis
    by (auto simp: keeps_def startConsumers_def same_fwds.refl split: option.split
        intro!: keeps_snd [OF same_fwds.keeps_forM])
qed

lemma channelInto_fwds:
  assumes "channelInto L assign cleanup what w = (Ok (), w')"
    and "\<And>ch c. closeListener (assign ch c) = closeListener c \<and> connection (assign ch c) = connection c"
  shows "same_fwds w w'"
proof -
  obtain r s where run: "connChannel L (connection (conn w)) (wio w) = (r, s)" by fastforce
  with connChannel_fwds [of L "connection (conn w)" "wio w"] assms show ?thesis
    by (cases r) (auto simp: channelInto_def liftW_run onCore_run bindM_run failM_run same_fwds_def connFwds_def
        split: prod.splits res.splits)
qed

text \<open>A successful start of a dialled connection adds one forwarder for the connection when there is a listener.\<close>

lemma startUp_fwds:
  assumes "list_all (well_behaved L) opts" and "startUp L opts w = (Ok (), t)" and "connection (conn w) = Some (AmqpConn pf cl)"
  shows "connFwds t = connFwds w @ (if closeListener (conn t) = None then [] else [FwdConnection])"
proof -
  from assms(2) obtain a b c d f where
    a: "channelInto L (\<lambda>ch c. c\<lparr>responseChannel := ch\<rparr>) (returnM ()) ''failed to create response channel: '' w = (Ok (), a)"
    and b: "channelInto L (\<lambda>ch c. c\<lparr>setupChannel := ch\<rparr>)
           (bindM (getM conn) (\<lambda>c. thenM (liftW (tryM (chClose L (responseChannel c)))) (returnM ())))
           ''failed to create setup channel: '' a = (Ok (), b)"
    and c: "runSetups opts b = (Ok (), c)"
    and d: "liftW (chClose L (setupChannel (conn c))) c = (Ok (), d)"
    and f: "notifyConnectionClose d = (Ok (), f)" "startConsumers L f = (Ok (), t)"
    unfolding startUp_def by (fastforce simp: bindM_Ok_iff wrapM_Ok_iff getM_run)
  have ab: "same_fwds w b" using channelInto_fwds [OF a] channelInto_fwds [OF b] same_fwds.trans by simp
  have "setup_effect L b c" by (rule keepsD [OF keeps_runSetups(1) [OF assms(1)] c])
  then have bc: "connFwds c = connFwds b" "connection (conn c) = connection (conn b)"
    by (auto simp: setup_effect_def io_effect_def fwd_effect_def ownCore_def connFwds_def fwdOf_channels_only)
  have cd: "connFwds d = connFwds c" "conn d = conn c"
    using d by (auto simp: connFwds_def liftW_run chClose_def onChannel_def run_simps split: option.splits amqpChannel.splits)
  have df: "connFwds f = connFwds d @ (if closeListener (conn f) = None then [] else [FwdConnection])"
    using f(1) assms(3) ab bc(2) cd(2)
    by (auto simp: notifyConnectionClose_def run_simps connFwds_def same_fwds_def split: option.splits)
  from keepsD [OF same_fwds_startConsumers f(2)] ab bc(1) cd(1) df show ?thesis by (simp add: same_fwds_def)
qed

lemma forwardClose_connection:
  "forwardClose l (ConnectionClosed ev) fs =
    concat (map (\<lambda>_. case l of None \<Rightarrow> [] | Some k \<Rightarrow> [(k, ErrText (''connection closed: '' @ ev))]) (filter (\<lambda>f. f = FwdConnection) fs))"
proof (induction fs)
  case (Cons f fs)
  then show ?case by (cases f) (simp_all add: forwardClose_def)
qed (simp add: forwardClose_def)

lemma forwardClose_channel:
  "p \<in> set (forwardClose l (ChannelClosed n ev) fs) \<Longrightarrow> \<exists>k. FwdChannel n k \<in> set fs \<and> p = (k, ErrText ev)"
proof (induction fs)
  case (Cons f fs)
  then show ?case by (cases f) (auto simp: forwardClose_def split: if_splits)
qed (simp add: forwardClose_def)

text \<open>
  C32: who hears of a close. After a successful \<open>Start\<close> of a connection that had not been dialled,
  with setup functions of the library, the end of the connection is reported exactly once, to the
  listener the connection has then (set by a \<open>CloseListener\<close> option or before), as an error that starts
  with \<open>connection closed: \<close>, and to nobody when there is none. The end of a channel is reported
  only to a listener that was set before \<open>Start\<close>, with the text of the event.
\<close>

theorem close_events_forwarded:
  assumes "list_all (well_behaved L) opts" and "connection (conn w) = None" and "forwarders (wio w) = []"
    and "Start L opts w = (Ok (), t)"
  shows "forwardClose (closeListener (conn t)) (ConnectionClosed ev) (forwarders (wio t)) =
      (case closeListener (conn t) of None \<Rightarrow> [] | Some l \<Rightarrow> [(l, ErrText (''connection closed: '' @ ev))])
    \<and> (\<forall>(l, e) \<in> set (forwardClose (closeListener (conn t)) (ChannelClosed n ev) (forwarders (wio t))).
      closeListener (conn w) = Some l \<and> e = ErrText ev)"
proof -
  obtain a b where dial: "connectToAmqpURL L (prepareStart w) = (Ok (), a)" and up: "startUp L opts a = (Ok (), b)"
    and t: "t = b\<lparr>wio := (wio b)\<lparr>core := (conn b)\<lparr>started := True\<rparr>\<rparr>\<rparr>"
    using assms(2,4) by (auto simp: Start_run bindM_Ok_iff onCore_run split: if_splits)
  have a: "connection (conn a) = Some (AmqpConn (prefetchLimit (conn w)) (closeListener (conn w)))" "forwarders (wio a) = []"
    using dial assms(3) by (auto simp: connectToAmqpURL_def bindM_Ok_iff getM_run liftW_run onCore_run invoke_run
        prepareStart_def split: option.splits)
  have "filter (\<lambda>f. f = FwdConnection) (forwarders (wio t)) = (if closeListener (conn t) = None then [] else [FwdConnection])"
    using startUp_fwds [OF assms(1) up a(1)] a(2) t by (simp add: connFwds_def)
  then have "forwardClose (closeListener (conn t)) (ConnectionClosed ev) (forwarders (wio t)) =
      (case closeListener (conn t) of None \<Rightarrow> [] | Some l \<Rightarrow> [(l, ErrText (''connection closed: '' @ ev))])"
    by (simp add: forwardClose_connection split: option.split)
  moreover have "closeListener (conn w) = Some l" if "FwdChannel n l \<in> set (forwarders (wio t))" for n l
    using keepsD [OF dial_startUp [OF assms(1)] up] a t that by (auto simp: dial_rel_def dialled_def listens_def)
  ultimately show ?thesis using forwardClose_channel by fastforce
qed

theorem close_events_forwarded_witness:
  "\<exists>t. Start demoLib [CloseListener (Some 7)] (newWorld ''svc'' ''amqp://h'' freshIO) = (Ok (), t)
     \<and> forwardClose (closeListener (conn t)) (ConnectionClosed ''gone'') (forwarders (wio t)) = [(7, ErrText ''connection closed: gone'')]
     \<and> forwardClose (closeListener (conn t)) (ChannelClosed 0 ''gone'') (forwarders (wio t)) = []"
proof -
  let ?w = "newWorld ''svc'' ''amqp://h'' freshIO" and ?opts = "[CloseListener (Some 7)]"
  have "fst (Start demoLib ?opts ?w) = Ok () \<and> closeListener (conn (snd (Start demoLib ?opts ?w))) = Some 7"
    by (simp add: Start_run connectToAmqpURL_def startUp_def channelInto_def prepareStart_def newConnection_def
        bindM_run liftW_run getM_run putM_run onCore_run connChannel_def amqpConn_channel_run freshIO_def Let_def
        invoke_run tryM_run channel_op_defs returnM_run failM_run CloseListener_def coreSetup_def notifyConnectionClose_def
        startConsumers_def newQueueConsumers_def runSetups_def wrapM_run run_simps)
  then obtain t where run: "Start demoLib ?opts ?w = (Ok (), t)" and l: "closeListener (conn t) = Some 7"
    by (metis prod.collapse)
  have "list_all (well_behaved demoLib) ?opts" "connection (conn ?w) = None" "forwarders (wio ?w) = []"
    by (simp_all add: newConnection_def freshIO_def)
  note forwarded = close_events_forwarded [OF this run]
  have "p \<notin> set (forwardClose (closeListener (conn t)) (ChannelClosed 0 ''gone'') (forwarders (wio t)))" for p
    using forwarded [of "''gone''" 0] by (cases p) (auto simp: newConnection_def)
  then have "forwardClose (closeListener (conn t)) (ChannelClosed 0 ''gone'') (forwarders (wio t)) = []"
    by (metis list.set_intros(1) neq_Nil_conv)
  with run l forwarded [of "''gone''" 0] show ?thesis by simp
qed

end
