(* ===== verification/Well_Formed.thy ===== *)
theory Well_Formed
  imports Running
begin

text \<open>
  The registry of consumers is well-formed in every state of a connection's life, also after a \<open>Start\<close> that
  failed half-way through its consumers; and what a second \<open>Start\<close> works on.
\<close>

definition consumer_ok :: "lib \<Rightarrow> string \<Rightarrow> queueConsumer \<Rightarrow> bool" where
  "consumer_ok L q qc \<longleftrightarrow> queue qc = q \<and> unambiguous L (handlers qc) \<and> qcSpanNameFn qc \<noteq> None"

lemma registry_ok_consumers:
  "registry_ok L r \<longleftrightarrow> (\<exists>qcs. r = Some qcs \<and> gomap_ok (consumers qcs) \<and> qcsSpanNameFn qcs \<noteq> None
     \<and> (\<forall>q qc. map_of (consumers qcs) q = Some qc \<longrightarrow> consumer_ok L q qc))"
  by (auto simp: registry_ok_def qcs_ok_def named_def consumer_ok_def)

definition reg_rel :: "lib \<Rightarrow> world \<Rightarrow> world \<Rightarrow> bool" where
  "reg_rel L w w' \<longleftrightarrow> (overlap_sound L \<and> registry_ok L (registry w) \<longrightarrow> registry_ok L (registry w'))"

interpretation reg_rel: effect_rel "reg_rel L" for L
  by unfold_locales (auto simp: reg_rel_def)

lemma reg_same: "(\<And>w. registry (snd (m w)) = registry w) \<Longrightarrow> keeps (reg_rel L) m"
  by (simp add: keeps_def reg_rel_def)

lemma reg_liftW [simp]: "registry (snd (liftW m w)) = registry w"
  by (simp add: liftW_run split: prod.split)

lemma reg_onCore [simp]: "registry (snd (onCore f w)) = registry w"
  by (simp add: onCore_run)

lemmas reg_keeps = reg_same [OF reg_liftW] reg_same [OF reg_onCore]

lemma reg_channelInto:
  assumes "keeps (reg_rel L) cleanup"
  shows "keeps (reg_rel L) (channelInto L' assign cleanup what)"
proof (rule keepsI)
  fix w
  have fail: "keeps (reg_rel L) (thenM (onCore (assign None)) (thenM cleanup (failM (ErrWrap what e))))" for e
    by (intro reg_rel.keeps_bind reg_keeps assms reg_rel.keeps_fail)
  obtain r w' where run: "liftW (connChannel L' (connection (conn w))) w = (r, w')" by fastforce
  then have "registry w' = registry w" using reg_liftW [of "connChannel L' (connection (conn w))" w] by simp
  then have "reg_rel L w w'" by (simp add: reg_rel_def)
  with run keeps_snd [OF fail] show "reg_rel L w (snd (channelInto L' assign cleanup what w))"
    by (cases r) (auto simp: channelInto_def reg_rel_def onCore_run)
qed

lemma reg_updConsumer: "consumer_ok L q qc \<Longrightarrow> keeps (reg_rel L) (updConsumer q (\<lambda>_. qc))"
  by (rule keepsI)
    (auto simp: reg_rel_def updConsumer_def putM_run registry_ok_consumers AList.map_of_map_entry gomap_ok_def AList.distinct_map_entry
      split: if_splits option.splits)

lemma configure_ok: "consumer_ok L q qc \<Longrightarrow> consumer_ok L q (configureConsumer L' c qc)"
  by (auto simp: consumer_ok_def configureConsumer_def Let_def split: option.split)

lemma reg_startConsumer:
  assumes "consumer_ok L (fst entry) (snd entry)"
  shows "keeps (reg_rel L) (startConsumer L' entry)"
proof -
  have "consumer_ok L (fst entry) (configureConsumer L' c (snd entry))" for c by (rule configure_ok [OF assms])
  then have "consumer_ok L (fst entry) ((configureConsumer L' c (snd entry))\<lparr>qcNotificationCh := a, qcErrorCh := b\<rparr>)" for c a b
    by (simp add: consumer_ok_def)
  then show ?thesis
    unfolding startConsumer_def Let_def queueConsumer_consume_def prod.case
    by (intro reg_rel.keeps_bind reg_rel.keeps_get reg_rel.keeps_wrap reg_updConsumer configure_ok assms reg_same)
      (simp_all add: putM_run)
qed

lemma reg_startConsumers: "keeps (reg_rel L) (startConsumers L')"
proof (rule keepsI)
  fix w
  show "reg_rel L w (snd (startConsumers L' w))"
  proof (cases "registry w")
    case None
    then show ?thesis by (simp add: startConsumers_def reg_rel_def)
  next
    case (Some qcs)
    show ?thesis unfolding reg_rel_def
    proof
      assume ok: "overlap_sound L \<and> registry_ok L (registry w)"
      with Some have "gomap_ok (consumers qcs)" "map_of (consumers qcs) q = Some qc \<Longrightarrow> consumer_ok L q qc" for q qc
        by (auto simp: registry_ok_consumers)
      then have "consumer_ok L (fst e) (snd e)" if "e \<in> set (consumers qcs)" for e
        using that by (cases e) (auto simp: gomap_ok_def)
      then have "keeps (reg_rel L) (forM (startConsumer L') (consumers qcs))"
        by (intro reg_rel.keeps_forM reg_startConsumer)
      from keeps_snd [OF this, of w] ok show "registry_ok L (registry (snd (startConsumers L' w)))"
        by (simp add: startConsumers_def Some reg_rel_def)
    qed
  qed
qed

lemma reg_startUp:
  assumes "list_all (well_behaved L) opts"
  shows "keeps (reg_rel L) (startUp L opts)"
proof -
  have setups: "keeps (reg_rel L) (runSetups opts)"
    using keeps_runSetups(1) [OF assms] by (auto simp: keeps_def setup_effect_def reg_rel_def)
  have notify: "keeps (reg_rel L) notifyConnectionClose" by (rule reg_same) (rule notifyClose_frame)
  have close: "keeps (reg_rel L) (liftW (chClose L ch))" "keeps (reg_rel L) (liftW (tryM (chClose L ch)))" for ch
    by (rule reg_same, simp)+
  show ?thesis
    unfolding startUp_def
    by (intro reg_rel.keeps_bind reg_channelInto reg_rel.keeps_return reg_rel.keeps_get reg_rel.keeps_wrap
        reg_startConsumers setups notify close keeps_useLogger reg_rel.refl)
qed

lemma reg_Start:
  assumes "list_all (well_behaved L) opts" and "Start L opts w = (r, t)" and "registry w \<noteq> None"
  shows "reg_rel L w t"
proof (cases "started (conn w)")
  case True
  with assms(2) show ?thesis by (simp add: Start_run reg_rel_def)
next
  case False
  let ?run = "thenM (thenM (if connection (conn w) = None then connectToAmqpURL L else returnM ()) (startUp L opts))
    (thenM (onCore (\<lambda>c. c\<lparr>started := True\<rparr>)) useLogger)"
  have "keeps (reg_rel L) (connectToAmqpURL L)"
    unfolding connectToAmqpURL_def by (intro reg_rel.keeps_bind reg_rel.keeps_get reg_keeps)
  then have "keeps (reg_rel L) ?run"
    by (intro reg_rel.keeps_bind reg_startUp assms(1) reg_rel.keeps_if reg_rel.keeps_return reg_keeps
        keeps_useLogger reg_rel.refl)
  then have "reg_rel L (prepareStart w) t"
    using assms(2) False by (auto simp: Start_run dest: keepsD)
  moreover have "registry (prepareStart w) = registry w" using assms(3) by (auto simp: prepareStart_def)
  ultimately show ?thesis by (simp add: reg_rel_def)
qed

lemma reg_Close: "keeps (reg_rel L) (Close L')"
proof -
  have all: "keeps (reg_rel L) (closeAll L' chs)" for chs
    by (induction chs) (auto intro!: reg_rel.keeps_bind reg_rel.keeps_return reg_keeps)
  show ?thesis
    unfolding Close_def
    by (intro reg_rel.keeps_bind reg_rel.keeps_get reg_rel.keeps_if reg_rel.keeps_return reg_rel.keeps_case_option reg_rel.keeps_fail all reg_keeps)
qed

lemma conn_step_reg: "conn_step L w w' \<Longrightarrow> overlap_sound L \<Longrightarrow> registry_ok L (registry w) \<Longrightarrow> registry_ok L (registry w')"
proof (induction rule: conn_step.induct)
  case (start opts w r w')
  then show ?case using reg_Start [OF start(1,2)] by (auto simp: reg_rel_def registry_ok_def)
next
  case (close w r w')
  then show ?case using keepsD [OF reg_Close close(1)] by (simp add: reg_rel_def)
qed simp_all

text \<open>
  C18: the registry is well-formed. In every state reachable from a new connection by starting (any number of times, successfully
  or not, with any setup functions of the library), closing and publishing, the connection has a registry, a queue has at most
  one consumer and its consumer is stored under the name of its queue, no two routing patterns of a consumer overlap, and every consumer
  has a function that names its spans, so that a consumer loop never calls a nil function.
\<close>

theorem registry_well_formed:
  assumes "overlap_sound L" and "reachable L (newWorld svc url s) w"
  shows "\<exists>qcs. registry w = Some qcs \<and> distinct (gokeys (consumers qcs))
    \<and> (\<forall>(q, qc) \<in> set (consumers qcs). queue qc = q \<and> qcSpanNameFn qc \<noteq> None \<and> unambiguous L (handlers qc))"
proof -
  have "registry_ok L (registry (newWorld svc url s))"
    by (simp add: registry_ok_def qcs_ok_def named_def newQueueConsumers_def)
  with assms(2) have "registry_ok L (registry w)"
    by (induction rule: reachable.induct) (use assms(1) conn_step_reg in blast)+
  then show ?thesis by (fastforce simp: registry_ok_consumers consumer_ok_def gomap_ok_def)
qed

theorem registry_well_formed_witness:
  "\<exists>qcs. registry (snd (Start demoLib demoSetups (newWorld ''svc'' ''amqp://h'' freshIO))) = Some qcs \<and> distinct (gokeys (consumers qcs))"
proof -
  have "conn_step demoLib (newWorld ''svc'' ''amqp://h'' freshIO) (snd (Start demoLib demoSetups (newWorld ''svc'' ''amqp://h'' freshIO)))"
    by (rule conn_step.start [OF demoSetups_behave surjective_pairing])
  from registry_well_formed [OF demoLib_overlap reachable.step [OF reachable.init this]] show ?thesis by blast
qed


subsection \<open>Starting again\<close>

lemma Start_dial_rel:
  assumes "list_all (well_behaved L) opts" and "connection (conn w) \<noteq> None" and "Start L opts w = (r, t)"
  shows "\<exists>cs. calls (wio t) = calls (wio w) @ cs \<and> (\<forall>url cfg. Dial url cfg \<notin> set cs) \<and> connection (conn t) = connection (conn w)"
proof (cases "started (conn w)")
  case True
  with assms(3) show ?thesis by (auto simp: Start_run)
next
  case False
  obtain r' t' where up: "startUp L opts (prepareStart w) = (r', t')" by fastforce
  have "calls (wio t) = calls (wio t') \<and> connection (conn t) = connection (conn t')"
    using assms(2,3) False up by (auto simp: Start_run bindM_run returnM_run onCore_run useLogger_run split: res.splits option.splits)
  with keepsD [OF dial_startUp [OF assms(1)] up] show ?thesis by (auto simp: dial_rel_def prepareStart_def)
qed

lemma Start_connected:
  assumes "list_all (well_behaved L) opts" and "connection (conn w) = None" and "Start L opts w = (Ok (), t)"
  shows "\<exists>pf cl. connection (conn t) = Some (AmqpConn pf cl)" and "started (conn t)"
proof -
  obtain a b where dial: "connectToAmqpURL L (prepareStart w) = (Ok (), a)" and up: "startUp L opts a = (Ok (), b)"
    and t: "t = b\<lparr>wio := (wio b)\<lparr>core := (conn b)\<lparr>started := True\<rparr>\<rparr>\<rparr>"
    using assms(2,3) by (auto simp: Start_run bindM_Ok_iff onCore_run split: if_splits)
  have "\<exists>pf cl. connection (conn a) = Some (AmqpConn pf cl)"
    using dial by (auto simp: connectToAmqpURL_def bindM_Ok_iff getM_run liftW_run onCore_run invoke_run split: option.splits)
  with keepsD [OF dial_startUp [OF assms(1)] up] t
  show "\<exists>pf cl. connection (conn t) = Some (AmqpConn pf cl)" and "started (conn t)" by (auto simp: dial_rel_def)
qed

text \<open>
  C28: a connection cannot be started again. After a successful \<open>Start\<close> that dialled, \<open>Close\<close> ends with closing the AMQP connection but keeps
  it in the connection's field; so the next \<open>Start\<close> (with setup functions of the library, whatever it returns) does not dial: all
  its calls go to the connection that was closed, although nothing marks the connection as used up.
\<close>

theorem restart_on_closed_connection:
  assumes "list_all (well_behaved L) opts" and "list_all (well_behaved L) opts'" and "connection (conn w) = None"
    and "Start L opts w = (Ok (), t)" and "Close L t = (r, u)" and "Start L opts' u = (x, v)"
  shows "(\<exists>before. calls (wio u) = before @ [CloseConnection]) \<and> \<not> started (conn u)
    \<and> (\<exists>cs. calls (wio v) = calls (wio u) @ cs \<and> (\<forall>url cfg. Dial url cfg \<notin> set cs))
    \<and> connection (conn v) = connection (conn t)"
proof -
  from Start_connected(1) [OF assms(1,3,4)] obtain pf cl where cn: "connection (conn t) = Some (AmqpConn pf cl)" by blast
  with Close_run [OF Start_connected(2) [OF assms(1,3,4)] _ refl, of L] assms(5)
  have u: "calls (wio u) = calls (wio t) @ closeCalls (consumerChannels (conn t)) @ [CloseConnection]"
    "connection (conn u) = connection (conn t)" "\<not> started (conn u)" by auto
  with Start_dial_rel [OF assms(2) _ assms(6)] cn show ?thesis by auto
qed

theorem restart_on_closed_connection_witness:
  "\<exists>t. Start demoLib demoSetups (newWorld ''svc'' ''amqp://h'' freshIO) = (Ok (), t)
     \<and> (\<exists>before. calls (wio (snd (Close demoLib t))) = before @ [CloseConnection])
     \<and> connection (conn (snd (Start demoLib [] (snd (Close demoLib t))))) = connection (conn t)"
proof -
  let ?run = "Start demoLib demoSetups (newWorld ''svc'' ''amqp://h'' freshIO)"
  from demoStart_Ok have run: "?run = (Ok (), snd ?run)" by (metis prod.collapse)
  have none: "connection (conn (newWorld ''svc'' ''amqp://h'' freshIO)) = None" by (simp add: newConnection_def)
  have nil: "list_all (well_behaved demoLib) []" by simp
  from restart_on_closed_connection [OF demoSetups_behave nil none run surjective_pairing surjective_pairing] run
  show ?thesis by blast
qed

end
