(* ===== verification/Registry_Refinement.thy ===== *)
theory Registry_Refinement
  imports Routing_Handlers
begin

text \<open>
  The registry of handlers against an abstract specification: a set of bindings, to which a
  registration adds one unless it conflicts with a binding that is there. The locale
  \<open>handler_registry\<close> extends the contract of a handler table by when a registration is refused and
  derives the simulation for sequences of registrations; it is interpreted for the handlers of one
  queue and for the registry of all queues.
\<close>

definition specRegister :: "('p \<Rightarrow> 'p \<Rightarrow> bool) \<Rightarrow> ('p \<times> 'h) set \<Rightarrow> 'p \<Rightarrow> 'h \<Rightarrow> bool \<times> ('p \<times> 'h) set" where
  "specRegister conflicts B p h =
     (if \<exists>(q, g) \<in> B. conflicts p q then (False, B) else (True, insert (p, h) B))"

primrec specAll :: "('p \<Rightarrow> 'p \<Rightarrow> bool) \<Rightarrow> ('p \<times> 'h) list \<Rightarrow> ('p \<times> 'h) set \<Rightarrow> bool list \<times> ('p \<times> 'h) set" where
  "specAll conflicts [] B = ([], B)"
| "specAll conflicts (r # rs) B =
     (case specRegister conflicts B (fst r) (snd r) of (ok, B1) \<Rightarrow> (case specAll conflicts rs B1 of (oks, B2) \<Rightarrow> (ok # oks, B2)))"

text \<open>The same sequence of registrations on an implementation; an answer is whether the error is nil.\<close>

primrec registerAllWith :: "('t \<Rightarrow> 'p \<Rightarrow> 'h \<Rightarrow> goerr option \<times> 't) \<Rightarrow> ('p \<times> 'h) list \<Rightarrow> 't \<Rightarrow> bool list \<times> 't" where
  "registerAllWith register [] t = ([], t)"
| "registerAllWith register (r # rs) t =
     (case register t (fst r) (snd r) of (err, t1) \<Rightarrow>
       (case registerAllWith register rs t1 of (oks, t2) \<Rightarrow> ((err = None) # oks, t2)))"

locale handler_registry = handler_table lookup register covers bindings wf
  for lookup :: "'t \<Rightarrow> 'k \<Rightarrow> 'h option" and register :: "'t \<Rightarrow> 'p \<Rightarrow> 'h \<Rightarrow> goerr option \<times> 't"
    and covers :: "'p \<Rightarrow> 'k \<Rightarrow> bool" and bindings :: "'t \<Rightarrow> ('p \<times> 'h) set" and wf :: "'t \<Rightarrow> bool" +
  fixes conflicts :: "'p \<Rightarrow> 'p \<Rightarrow> bool"
  assumes refused_iff: "wf t \<Longrightarrow> fst (register t p h) \<noteq> None \<longleftrightarrow> (\<exists>(q, g) \<in> bindings t. conflicts p q)"
begin

lemma register_refines:
  assumes "wf t" and "register t p h = (err, t')"
  shows "specRegister conflicts (bindings t) p h = (err = None, bindings t')" and "wf t'"
proof -
  have "err = None \<longleftrightarrow> \<not> (\<exists>(q, g) \<in> bindings t. conflicts p q)"
    using refused_iff [OF assms(1), of p h] assms(2) by auto
  moreover have "wf t' \<and> bindings t' = (if err = None then insert (p, h) (bindings t) else bindings t)"
    using register_ok [OF assms(1), of p h t'] register_refused [OF assms(1), of p h _ t'] assms(2) by (cases err) simp_all
  ultimately show "specRegister conflicts (bindings t) p h = (err = None, bindings t')" "wf t'"
    by (simp_all add: specRegister_def)
qed

lemma registerAll_refines:
  "wf t \<Longrightarrow> registerAllWith register rs t = (oks, t') \<Longrightarrow> specAll conflicts rs (bindings t) = (oks, bindings t') \<and> wf t'"
proof (induction rs arbitrary: t oks)
  case (Cons r rs)
  obtain err t1 where r: "register t (fst r) (snd r) = (err, t1)" by fastforce
  note step = register_refines [OF Cons.prems(1) r]
  obtain oks1 where rest: "registerAllWith register rs t1 = (oks1, t')" "oks = (err = None) # oks1"
    using Cons.prems(2) by (auto simp: r split: prod.splits)
  from Cons.IH [OF step(2) rest(1)] show ?case by (simp add: step(1) rest(2))
qed simp

end

lemma rkh_exists_overlaps: "rkh_exists L h p = Some m \<Longrightarrow> \<exists>(q, g) \<in> set h. RoutingKeyOverlaps L p q"
  by (induction h) (auto split: if_splits)

interpretation rkh_reg: handler_registry "rkh_get L" "rkh_register L" "MatchRoutingKey L" set
  "\<lambda>h. overlap_sound L \<and> unambiguous L h" "RoutingKeyOverlaps L" for L :: lib
  by unfold_locales (auto simp: rkh_register_def rkh_exists_None split: option.split dest: rkh_exists_overlaps)

text \<open>Two registrations conflict when they are for one queue and their patterns overlap.\<close>

definition sameQueueOverlap :: "lib \<Rightarrow> string \<times> string \<Rightarrow> string \<times> string \<Rightarrow> bool" where
  "sameQueueOverlap L p q \<longleftrightarrow> fst p = fst q \<and> RoutingKeyOverlaps L (snd p) (snd q)"

lemma queueConsumers_add_refused_iff:
  "fst (queueConsumers_add L c q p h) \<noteq> None \<longleftrightarrow> (\<exists>(q', g) \<in> qcs_bindings c. sameQueueOverlap L (q, p) q')"
proof (cases "map_of (consumers c) q")
  case None
  then show ?thesis by (auto simp: queueConsumers_add_def qcs_bindings_def sameQueueOverlap_def Let_def)
next
  case (Some qc)
  have "rkh_exists L (handlers qc) p \<noteq> None \<longleftrightarrow> (\<exists>(r, g) \<in> set (handlers qc). RoutingKeyOverlaps L p r)"
    by (auto simp: rkh_exists_None dest: rkh_exists_overlaps)
  moreover have "fst (queueConsumers_add L c q p h) \<noteq> None \<longleftrightarrow> rkh_exists L (handlers qc) p \<noteq> None"
    using Some by (auto simp: queueConsumers_add_def Let_def split: option.split)
  ultimately show ?thesis using Some by (auto simp: qcs_bindings_def sameQueueOverlap_def)
qed

interpretation qcs_reg: handler_registry "\<lambda>c k. queueConsumers_get L c (fst k) (snd k)"
  "\<lambda>c p. queueConsumers_add L c (fst p) (snd p)" "qcs_covers L" qcs_bindings
  "\<lambda>c. overlap_sound L \<and> qcs_ok L c" "sameQueueOverlap L" for L :: lib
  by unfold_locales (use queueConsumers_add_refused_iff in simp)

text \<open>
  C17: the registry refines a set of bindings. For every sequence of registrations of patterns on queues, from an empty registry, the
  answers are those of the specification (a registration is refused exactly when its pattern overlaps one
  accepted earlier for the same queue), and afterwards a lookup gives the handler of the accepted
  binding whose pattern matches the key on that queue, and nothing when there is none.
\<close>

theorem registry_refines_bindings:
  assumes "overlap_sound L"
    and "registerAllWith (\<lambda>c p. queueConsumers_add L c (fst p) (snd p)) rs \<lparr>consumers = [], qcsSpanNameFn = f\<rparr> = (oks, c)"
  shows "\<exists>B. specAll (sameQueueOverlap L) rs {} = (oks, B)
    \<and> (\<forall>q k h. queueConsumers_get L c q k = Some h \<longleftrightarrow> (\<exists>p. ((q, p), h) \<in> B \<and> MatchRoutingKey L p k))"
proof -
  have "overlap_sound L \<and> qcs_ok L \<lparr>consumers = [], qcsSpanNameFn = f\<rparr>" using assms(1) by (simp add: qcs_ok_def)
  moreover have "qcs_bindings \<lparr>consumers = [], qcsSpanNameFn = f\<rparr> = {}" by (simp add: qcs_bindings_def)
  ultimately have "specAll (sameQueueOverlap L) rs {} = (oks, qcs_bindings c)" "qcs_ok L c"
    using qcs_reg.registerAll_refines [OF _ assms(2)] by auto
  with queueConsumers_get_iff show ?thesis by blast
qed

theorem registry_refines_bindings_witness:
  "fst (registerAllWith (\<lambda>c p. queueConsumers_add demoLib c (fst p) (snd p))
     [((''q'', ''a.#''), \<lambda>_ _. returnM ()), ((''q'', ''a.b''), \<lambda>_ _. returnM ()), ((''r'', ''a.b''), \<lambda>_ _. returnM ())]
     \<lparr>consumers = [], qcsSpanNameFn = None\<rparr>) = [True, False, True]"
  using registry_refines_bindings [OF demoLib_overlap surjective_pairing, of
      "[((''q'', ''a.#''), \<lambda>_ _. returnM ()), ((''q'', ''a.b''), \<lambda>_ _. returnM ()), ((''r'', ''a.b''), \<lambda>_ _. returnM ())]" None]
  by (auto simp: specRegister_def sameQueueOverlap_def split: prod.splits)

end
