(* ===== verification/Spec2Isabelle.thy ===== *)
theory Spec2Isabelle
  imports End_To_End Tck_Adapter Consumer_Notifications Consumer_Concurrent Publisher_Atomic Totality Close_Events
    Well_Formed Registry_Refinement
begin

text \<open>
  A verification development of \<open>go-messaging-amqp\<close>, a Go library for publishing and consuming events over
  RabbitMQ: publishers with broker confirmations, consumers that dispatch deliveries to typed handlers, request and
  response between services, CloudEvents headers, trace propagation and metrics, and a
  connection that sets all of this up from a list of setup functions.

  \<^bold>\<open>How the program is modelled.\<close> Go functions are computations \<open>('s, 'a) M = 's \<Rightarrow> 'a res \<times> 's\<close> on an explicit
  state; \<open>res\<close> is a result, an error value, a panic, or a call that never returns (\<open>Go_Prelude\<close>). The state
  \<open>io\<close> (\<open>Runtime\<close>) holds what the functions share: the calls made on the AMQP library so far, channels and
  publishers by number, confirmation and notification channels, metrics, the log of spans, the plain fields of the
  connection. A \<open>world\<close> adds the registry of consumers and the started loops (\<open>Connection\<close>). Go maps are association
  lists in a visiting order; where the program ranges over a map, the order is arbitrary and the properties say what does not
  depend on it. Code outside the repository (the AMQP client, the messaging specification, OpenTelemetry,
  Prometheus, UUIDs, the clock, \<open>encoding/json\<close>) is the record \<open>lib\<close> or an argument; what a property relies on is a
  named hypothesis (\<open>ce_wire_format\<close>, \<open>propagates_fields\<close>, \<open>overlap_sound\<close>, \<open>confirms_in_order\<close>,
  \<open>never_cancelled\<close>, \<open>queue_args_ok\<close>, \<open>cloudevents_reader\<close>), and \<open>Reference_Libs\<close> has an instance for which they hold.
  Handlers of the user are arbitrary functions of the model's type.

  \<^bold>\<open>Theories and sources\<close> (below \<open>src/\<close>):
  \<^item> \<open>Naming\<close>: \<open>naming.go\<close>; names identify their parts, trimming inverts naming.
  \<^item> \<open>Headers_Model\<close>: \<open>headers.go\<close>; validation in every visiting order.
  \<^item> \<open>Tracing\<close>: \<open>tracing.go\<close>; the context survives injection and extraction.
  \<^item> \<open>Metrics_Model\<close>: \<open>metrics.go\<close>; \<open>Notifications\<close>: \<open>notifications.go\<close>.
  \<^item> \<open>Channel\<close>: the interfaces of \<open>channel.go\<close> and \<open>connection.go\<close> with the library's and the no-op implementation of
    \<open>topology_export.go\<close>; the locale \<open>channel_source\<close> is the contract of opening a channel.
  \<^item> \<open>Handler_Model\<close>: \<open>handler.go\<close>, \<open>consumableEvent.go\<close> and \<open>TypeMappingHandler\<close> of \<open>setup_consumer.go\<close>.
  \<^item> \<open>Routing_Handlers\<close>: \<open>routingkey_handlers.go\<close> and the registry of \<open>consumer.go\<close>; the locale \<open>handler_table\<close> is their
    common contract. \<open>Registry_Refinement\<close>: refinement of a set of bindings (\<open>handler_registry\<close>).
  \<^item> \<open>Publisher\<close>, \<open>Publisher_Wire\<close>, \<open>Publisher_Confirm\<close>: \<open>Publisher\<close> and \<open>publishMessage\<close> of \<open>setup_publisher.go\<close>;
    wire format, observability, confirmations.
  \<^item> \<open>Outbox\<close>: \<open>outbox_adapter.go\<close>; the locale \<open>confirmed_sender\<close> derives what a sequence of publishes reports,
    for both kinds of publishing together.
  \<^item> \<open>Consumer\<close>, \<open>Consumer_Notifications\<close>: the delivery loop of \<open>consumer.go\<close>; settlement, metrics, spans, notifications.
  \<^item> \<open>Interleaving\<close>, \<open>Publisher_Concurrent\<close>, \<open>Publisher_Atomic\<close>, \<open>Consumer_Concurrent\<close>: goroutines that publish on one
    publisher, and consumer loops, as step relations; the locales \<open>guarded_system\<close> and \<open>progressing_system\<close> are the
    contracts of an invariant and of termination.
  \<^item> \<open>Queue_Config\<close>: \<open>queue_binding_config.go\<close>.
  \<^item> \<open>Connection\<close>: \<open>connection.go\<close>, \<open>setup.go\<close>, \<open>must.go\<close>; \<open>Setup_Functions\<close>: the setup functions of \<open>setup_publisher.go\<close>,
    \<open>setup_consumer.go\<close> and \<open>request_response.go\<close>, and \<open>CollectTopology\<close>.
  \<^item> \<open>Lifecycle\<close>, \<open>Start_Close\<close>, \<open>Running\<close>: what setup functions, \<open>Start\<close> and \<open>Close\<close> may change (instances of the
    locale \<open>effect_rel\<close>); reachable states; running consumers. \<open>Totality\<close>: \<open>Start\<close> returns.
    \<open>Well_Formed\<close>: the registry in every reachable state, and starting again after \<open>Close\<close>.
    \<open>Close_Events\<close>: which listener hears of a closed connection or channel.
  \<^item> \<open>Topology_Export\<close>: \<open>topology_export.go\<close>; the collected topology is the declared one.
  \<^item> \<open>Request_Response\<close>: \<open>request_response.go\<close> with the bindings of responses.
  \<^item> \<open>Tck_Adapter\<close>: \<open>cmd/tck-adapter/main.go\<close>, the service manager and \<open>main\<close>.
  \<^item> \<open>End_To_End\<close> and this theory: the path of a message through several components.

  \<^bold>\<open>Concurrency.\<close> In most theories a publish is one step and a consumer loop runs alone. \<open>Publisher_Concurrent\<close> splits
  a publish at the points where others can come in between (the mutex, the \<open>select\<close>, the deferred unlock), lets any number of
  goroutines, an asynchronous broker and the rest of the program interleave, and shows what each call reports; \<open>Publisher_Atomic\<close> shows that
  all calls return and that every interleaving is equivalent to a sequence of single steps, which justifies the coarser
  view. \<open>Consumer_Concurrent\<close> does the same for consumer loops, split before and after the handler. A handler, and the part
  of a publish before the \<open>select\<close>, are one step each: what others do to the shared state in between does not concern the
  publisher or the loop. The goroutines that forward close notifications are recorded as \<open>forwarders\<close>; \<open>forwardClose\<close> is what they send.

  \<^bold>\<open>Termination and bounds.\<close> All definitions are total; there is no fuel. The delivery loop recurses over the deliveries
  until the channel is closed, loops over maps over their visiting orders. A call that may not return is
  the result \<open>Blocked\<close>, and properties that a call returns say so. Numbers are \<open>int\<close> and \<open>nat\<close>: the
  program computes only durations and lengths, far from the bounds of its 64-bit integers.

  \<^bold>\<open>Not modelled.\<close> The records a logger writes, as nothing reads them (which logger each part uses, with which attributes,
  and the panic on a nil logger are modelled); the names of functions read from the runtime, which are
  constants here; the help texts and buckets of collectors; errors of \<open>Ack\<close>, \<open>Nack\<close> and \<open>Reject\<close>, which are only logged; \<open>doc.go\<close>, which has comments only.
\<close>

subsection \<open>From publisher to consumer\<close>





text \<open>
  C3: a request is answered to the service that made it. Service \<open>a\<close> publishes a request, the
  broker delivers that message to a consumer whose handler for its routing key is a request-response handler of
  service \<open>b\<close>, and the delivery is acknowledged: then the handler's response was published on the
  response exchange of \<open>b\<close>, as the last call, and among the queues bound by \<open>ServiceResponseConsumer\<close>
  for \<open>b\<close> it matches those of \<open>a\<close> and no others. The user's handler must not change the connection.
\<close>

theorem request_answered_to_requester:
  assumes lib: "ce_wire_format L" "propagates_fields (propagatorOrGlobal L (pubPropagator (pubs s p))) F" "headerService \<notin> F"
      "cloudevents_reader L" "propagates_fields (propagatorOrGlobal L (connPropagator (core (lio ls)))) F"
    and request: "Publish L c p rk marshal msg hs s = (Ok (), t)" "wired (pubs s p)" "channel (pubs s p) = Some (AmqpChannel n)"
    and m: "calls t = calls s @ [PublishWithContext n' c' ex rk' man imm m]" "delivers ex rk' m d"
    and consumer: "qcSpanNameFn qc = Some nameFn"
      "rkh_get L (handlers qc) rk' = Some (newWrappedHandler T (responseWrapper L handler rk2 (respond L marshalR)))"
      "\<forall>c ev s. core (snd (handler c ev s)) = core s"
    and b: "serviceName (core (lio ls)) = b" "responseChannel (core (lio ls)) = Some (AmqpChannel n2)"
    and answer: "loopBody L qc d ls = (x, t')" "settled t' = settled ls @ [Acked (Tag d) False]"
  shows "\<exists>m' c2. last (calls (lio t')) = PublishWithContext n2 c2 (serviceResponseExchangeName b) rk2 False False m'
    \<and> (\<forall>x rk3 h opts cfg. list_all queue_option opts \<and> responseConfig L b x rk3 h opts = Inr cfg \<longrightarrow>
        cfgExchangeName cfg = serviceResponseExchangeName b
        \<and> (headersMatch (cfgQueueBindingHeaders cfg) (Headers m') \<longleftrightarrow> x = pubServiceName (pubs s p)))"
proof -
  let ?a = "pubServiceName (pubs s p)"
  note service = delivered_service [OF lib(1-4) request m]
  from m(2) have "RoutingKey d = rk'" by (simp add: delivers_def)
  with acked_handler [OF consumer(1) _ answer] consumer(2) obtain c1 ev s0 s2 where
    h: "responseWrapper L handler rk2 (respond L marshalR) c1 ev s0 = (Ok (), s2)" "evDeliveryInfo ev = deliveredInfo L qc d"
      "core s0 = core (lio ls)" "calls (lio t') = calls s2" by metis
  from h(1) obtain resp s1 a' where user: "handler c1 ev s0 = (Ok resp, s1)" "sendingService L (evDeliveryInfo ev) = Inr a'"
    and resp: "respond L marshalR c1 a' rk2 resp s1 = (Ok (), s2)" by (rule responseWrapper_Ok)
  from resp user(2) h(2) service have pub: "PublishServiceResponse L c1 ?a rk2 marshalR resp s1 = (Ok (), s2)"
    by (simp add: respond_def)
  have "core s1 = core (lio ls)" using consumer(3) user(1) h(3) by (metis snd_conv)
  with PublishServiceResponse_Ok [OF lib(1) _ lib(3) _ pub] lib(5) b h(4) obtain m' where
    "last (calls (lio t')) = PublishWithContext n2 (SpanCtx c1 (nextSpan s1)) (serviceResponseExchangeName b) rk2 False False m'"
    "map_of (Headers m') headerService = Some (GStr ?a)" by auto
  with responses_routed show ?thesis by blast
qed

theorem request_answered_to_requester_witness:
  "\<exists>t m m' c2. Publish demoLib Background 0 ''k'' Inr ''{}'' [] demoIO = (Ok (), t)
     \<and> calls t = [PublishWithContext 0 (SpanCtx Background 0) ''events.topic.exchange'' ''k'' False False m]
     \<and> last (calls (lio (snd (loopBody demoLib echoConsumer (deliveryOf ''events.topic.exchange'' ''k'' m) \<lparr>lio = answeringIO, settled = []\<rparr>)))) =
         PublishWithContext 4 c2 ''b.headers.exchange.response'' ''k'' False False m'"
proof -
  from demoPublish_Ok [of "[]" "''k''" "''{}''"] obtain t m where
    t: "Publish demoLib Background 0 ''k'' Inr ''{}'' [] demoIO = (Ok (), t)"
      "calls t = [PublishWithContext 0 (SpanCtx Background 0) ''events.topic.exchange'' ''k'' False False m]"
      "delivers ''events.topic.exchange'' ''k'' m (deliveryOf ''events.topic.exchange'' ''k'' m)" by auto
  let ?d = "deliveryOf ''events.topic.exchange'' ''k'' m"
  have wired: "wired (pubs demoIO 0)" by (simp add: wired_def demoPublisher_def headerService_def)
  have acked: "settled (snd (loopBody demoLib echoConsumer ?d \<lparr>lio = answeringIO, settled = []\<rparr>)) = [Acked (Tag ?d) False]"
    using delivered_service [OF demoLib_ce _ _ demoLib_reader t(1) wired _ _ t(3), of "{''traceparent''}" 0] t(2) demoFields
    by (intro echo_acks) (auto simp: deliveryOf_def headerService_def)
  from request_answered_to_requester [OF demoLib_ce _ _ demoLib_reader _ t(1) wired _ _ t(3) _ _ _ _ _ surjective_pairing,
      of "{''traceparent''}" "\<lparr>lio = answeringIO, settled = []\<rparr>" 0 0 "SpanCtx Background 0" False False echoConsumer
      "\<lambda>_. ''span''" rawMessageType echo "''k''" Inr "''b''" 4] acked t demoFields
  show ?thesis
    by (auto simp: headerService_def serviceResponseExchangeName_def)
qed

end
